(* ===== verification/Go_Prelude.thy ===== *)
theory Go_Prelude
  imports Complex_Main "HOL-Library.Word"
begin

text \<open>
  Shared vocabulary of the development: the Go machine-integer types as words,
  the collections of facts the component theories feed, and generic lemmas on
  words and natural numbers that several components use (casts that widen,
  division of words, binary length of a number).
\<close>

section \<open>Go integer types\<close>

text \<open>
  Go's fixed-width integers keep their width: \<open>uint16\<close>, \<open>uint32\<close> and
  \<open>uint64\<close> are words read by \<open>unat\<close>; \<open>int64\<close> (also \<open>time.Duration\<close>) is a
  64-bit word read as two's complement by \<open>sint\<close>. Arithmetic on words wraps
  around, as Go's does.
\<close>

type_synonym u16 = "16 word"
type_synonym u32 = "32 word"
type_synonym u64 = "64 word"
type_synonym i64 = "64 word"

named_theorems model_defs
  "definitions of the model unfolded when a concrete input is evaluated"

named_theorems word_casts
  "facts that read a widened Go integer at its original value"

subsection \<open>Binary length\<close>

text \<open>
  The number of binary digits of a natural number, \<open>bits.Len64\<close> in Go's
  standard library: the position of the highest set bit, plus one.
\<close>

fun bitlen :: "nat \<Rightarrow> nat" where
  "bitlen n = (if n = 0 then 0 else Suc (bitlen (n div 2)))"

section \<open>Widening casts\<close>

text \<open>
  \<open>uint64(x)\<close> of a narrower unsigned value keeps the value: the cast is
  \<open>ucast\<close> to a longer word.
\<close>

lemma unat_ucast_widen [word_casts]:
  fixes x :: "'a::len word"
  assumes "LENGTH('a) \<le> LENGTH('b)"
  shows "unat (ucast x :: 'b::len word) = unat x"
proof -
  have "unat x < 2 ^ LENGTH('a)" by (rule unsigned_less)
  also have "(2::nat) ^ LENGTH('a) \<le> 2 ^ LENGTH('b)"
    using assms by (rule power_increasing) simp
  finally have "take_bit LENGTH('b) (unat x) = unat x"
    by (simp add: take_bit_nat_eq_self_iff)
  then show ?thesis
    by (simp only: unsigned_ucast_eq)
qed

lemma unat_ucast_u16_u64 [word_casts, simp]: "unat (ucast (x :: u16) :: u64) = unat x"
  by (rule unat_ucast_widen) simp

lemma unat_ucast_u32_u64 [word_casts, simp]: "unat (ucast (x :: u32) :: u64) = unat x"
  by (rule unat_ucast_widen) simp

lemma unat_u16_bound: "unat (x :: u16) < 65536"
  using unsigned_less [of x] by simp

lemma unat_u32_bound: "unat (x :: u32) < 4294967296"
  using unsigned_less [of x] by simp

lemma unat_u64_bound: "unat (x :: u64) < 18446744073709551616"
  using unsigned_less [of x] by simp

section \<open>Multiplication without wrap-around\<close>

lemma unat_mult_no_wrap:
  fixes a b :: "'a::len word"
  assumes "unat a * unat b < 2 ^ LENGTH('a)"
  shows "unat (a * b) = unat a * unat b"
  using assms unat_mult_lem by blast

lemma power_split_le: "k \<le> m \<Longrightarrow> (b::nat) ^ m = b ^ k * b ^ (m - k)"
  by (metis le_add_diff_inverse power_add)

lemma abs_diff_le_of_nat: "(a::nat) \<le> n + d \<and> n \<le> a + d \<Longrightarrow> \<bar>int a - int n\<bar> \<le> int d"
  by linarith

section \<open>Binary length\<close>

declare bitlen.simps [simp del]

lemma bitlen_0 [simp]: "bitlen 0 = 0"
  by (simp add: bitlen.simps)

lemma bitlen_pos: "0 < n \<Longrightarrow> bitlen n = Suc (bitlen (n div 2))"
  by (simp add: bitlen.simps)

lemma bitlen_less: "n < 2 ^ bitlen n"
proof (induction n rule: bitlen.induct)
  case (1 n)
  show ?case
  proof (cases "n = 0")
    case True
    then show ?thesis by simp
  next
    case False
    with "1.IH" have "n div 2 < 2 ^ bitlen (n div 2)" by simp
    with False show ?thesis by (simp add: bitlen_pos)
  qed
qed

lemma bitlen_ge: "0 < n \<Longrightarrow> 2 ^ (bitlen n - 1) \<le> n"
proof (induction n rule: bitlen.induct)
  case (1 n)
  show ?case
  proof (cases "n div 2 = 0")
    case True
    with "1.prems" show ?thesis by (simp add: bitlen_pos)
  next
    case False
    with "1.IH" "1.prems" have ih: "2 ^ (bitlen (n div 2) - 1) \<le> n div 2" by simp
    from False have pos: "0 < bitlen (n div 2)" by (simp add: bitlen_pos)
    have "(2::nat) ^ (bitlen n - 1) = 2 ^ bitlen (n div 2)"
      using "1.prems" by (simp add: bitlen_pos)
    also have "\<dots> = 2 * 2 ^ (bitlen (n div 2) - 1)"
      using pos by (simp add: power_Suc [symmetric])
    also have "\<dots> \<le> 2 * (n div 2)"
      using ih by simp
    also have "\<dots> \<le> n" by simp
    finally show ?thesis .
  qed
qed

lemma bitlen_le_iff: "bitlen n \<le> k \<longleftrightarrow> n < 2 ^ k"
proof
  assume "bitlen n \<le> k"
  then have "(2::nat) ^ bitlen n \<le> 2 ^ k" by (rule power_increasing) simp
  with bitlen_less [of n] show "n < 2 ^ k" by linarith
next
  assume n: "n < 2 ^ k"
  show "bitlen n \<le> k"
  proof (rule ccontr)
    assume "\<not> bitlen n \<le> k"
    then have k: "k \<le> bitlen n - 1" by arith
    from \<open>\<not> bitlen n \<le> k\<close> have "0 < n"
      by (cases "n = 0") simp_all
    from k have "(2::nat) ^ k \<le> 2 ^ (bitlen n - 1)" by (rule power_increasing) simp
    with bitlen_ge [OF \<open>0 < n\<close>] n show False by linarith
  qed
qed

end
