(* ===== verification/Kernel.thy ===== *)
theory Kernel
  imports Go_Prelude
begin

text \<open>
  The kernel interface the program calls: Go's \<open>syscall.Sysinfo_t\<close> (the
  layout of Linux's \<open>struct sysinfo\<close> on linux/amd64, padding fields left out)
  and the wrapper \<open>syscall.Sysinfo\<close>, which issues the raw system call and
  turns a nonzero \<open>errno\<close> into an error. The kernel's answer is an input of
  the model: whatever the kernel writes into the structure, and the errno it
  returns.
\<close>

type_synonym errno = u64 \<comment> \<open>\<open>syscall.Errno\<close> is a \<open>uintptr\<close>\<close>

record sysinfo_t =
  si_Uptime :: i64
  si_Loads :: "u64 \<times> u64 \<times> u64"
  si_Totalram :: u64
  si_Freeram :: u64
  si_Sharedram :: u64
  si_Bufferram :: u64
  si_Totalswap :: u64
  si_Freeswap :: u64
  si_Procs :: u16
  si_Totalhigh :: u64
  si_Freehigh :: u64
  si_Unit :: u32

text \<open>
  \<open>syscall.Sysinfo(info)\<close>: \<open>_, _, e1 := RawSyscall(SYS_SYSINFO, ...)\<close>;
  \<open>if e1 != 0 { err = errnoErr(e1) }\<close>. The kernel fills \<open>info\<close> and returns
  \<open>e1\<close>; the wrapper reports either the error or the filled structure.
\<close>

definition Sysinfo_syscall :: "errno \<Rightarrow> sysinfo_t \<Rightarrow> errno + sysinfo_t" where
  "Sysinfo_syscall e1 info = (if e1 \<noteq> 0 then Inl e1 else Inr info)"

lemma Sysinfo_syscall_Inl_iff: "Sysinfo_syscall e1 info = Inl e \<longleftrightarrow> e1 \<noteq> 0 \<and> e = e1"
  by (auto simp: Sysinfo_syscall_def)

lemma Sysinfo_syscall_Inr_iff: "Sysinfo_syscall e1 info = Inr i \<longleftrightarrow> e1 = 0 \<and> i = info"
  by (auto simp: Sysinfo_syscall_def)

end
