(* ===== verification/Float64.thy ===== *)
theory Float64
  imports Go_Prelude
begin

text \<open>
  Go's conversion \<open>float64(x)\<close> of a \<open>uint64\<close>. The Go specification says the
  value is rounded to the precision of the destination, IEEE 754
  round-to-nearest with ties to even: a float64 carries 53 significant bits.
  Below \<open>2^53\<close> every integer is exact; above, the low \<open>bitlen n - 53\<close> bits are
  rounded away. The model is the integer value of the resulting float (a
  float64 rounded from an integer is again an integer), and \<open>float64_of_u64\<close>
  reads it as a real number. The theory proves that the conversion is exact
  below \<open>2^53\<close>, that its relative error is at most \<open>2^-53\<close>, and that its
  result has at most 53 significant bits.
\<close>

definition f64_round :: "nat \<Rightarrow> nat" where
  "f64_round n =
     (if bitlen n \<le> 53 then n
      else let e = bitlen n - 53; q = n div 2 ^ e; r = n mod 2 ^ e; h = 2 ^ (e - 1)
           in (if h < r \<or> (r = h \<and> odd q) then Suc q else q) * 2 ^ e)"

definition float64_of_u64 :: "u64 \<Rightarrow> real" where
  "float64_of_u64 x = real (f64_round (unat x))"

declare f64_round_def [model_defs] float64_of_u64_def [model_defs]

section \<open>Exactness below 2^53\<close>

lemma f64_round_exact: "n < 2 ^ 53 \<Longrightarrow> f64_round n = n"
  by (simp add: f64_round_def bitlen_le_iff)

section \<open>Rounding error\<close>

text \<open>
  Rounding \<open>n\<close> to a multiple of \<open>2^e\<close> (\<open>e > 0\<close>) by the nearest-even rule
  moves it by at most half a step, \<open>2^(e-1)\<close>, in either direction.
\<close>

lemma round_step_error:
  fixes n e :: nat
  assumes "0 < e"
  defines "q \<equiv> n div 2 ^ e" and "r \<equiv> n mod 2 ^ e"
  defines "v \<equiv> (if 2 ^ (e - 1) < r \<or> (r = 2 ^ (e - 1) \<and> odd q) then Suc q else q) * 2 ^ e"
  shows "v \<le> n + 2 ^ (e - 1)" and "n \<le> v + 2 ^ (e - 1)"
proof -
  have two: "(2::nat) ^ e = 2 * 2 ^ (e - 1)"
    using assms(1) by (simp add: power_Suc [symmetric])
  have n: "n = q * 2 ^ e + r"
    unfolding q_def r_def by (rule div_mult_mod_eq [symmetric])
  have r: "r < 2 ^ e" by (simp add: r_def)
  show "v \<le> n + 2 ^ (e - 1)" and "n \<le> v + 2 ^ (e - 1)"
  proof (atomize (full), cases "2 ^ (e - 1) < r \<or> (r = 2 ^ (e - 1) \<and> odd q)")
    case True
    then have "2 ^ (e - 1) \<le> r" by auto
    with True n r two show "v \<le> n + 2 ^ (e - 1) \<and> n \<le> v + 2 ^ (e - 1)"
      by (simp add: v_def)
  next
    case False
    then have "r \<le> 2 ^ (e - 1)" by auto
    with False n two show "v \<le> n + 2 ^ (e - 1) \<and> n \<le> v + 2 ^ (e - 1)"
      by (simp add: v_def)
  qed
qed

lemma f64_round_close:
  "f64_round n \<le> n + 2 ^ (bitlen n - 54) \<and> n \<le> f64_round n + 2 ^ (bitlen n - 54)"
proof (cases "bitlen n \<le> 53")
  case True
  then show ?thesis by (simp add: f64_round_def)
next
  case False
  then have e: "0 < bitlen n - 53" and e1: "bitlen n - 53 - 1 = bitlen n - 54" by auto
  from round_step_error [OF e, of n] False e1 show ?thesis
    by (simp add: f64_round_def Let_def)
qed

text \<open>
  The step \<open>2^(bitlen n - 54)\<close> is at most \<open>n / 2^53\<close>, since \<open>n\<close> has its top bit at
  position \<open>bitlen n - 1\<close>.
\<close>

lemma half_step_le: "53 < bitlen n \<Longrightarrow> 2 ^ 53 * 2 ^ (bitlen n - 54) \<le> n"
proof -
  assume b: "53 < bitlen n"
  then have "0 < n" by (cases "n = 0") simp_all
  have "(2::nat) ^ 53 * 2 ^ (bitlen n - 54) = 2 ^ (bitlen n - 1)"
    using b power_split_le [of 53 "bitlen n - 1" 2] by (simp only: diff_diff_left) simp
  also have "\<dots> \<le> n" using \<open>0 < n\<close> by (rule bitlen_ge)
  finally show ?thesis .
qed

lemma f64_round_rel_error:
  "2 ^ 53 * \<bar>int (f64_round n) - int n\<bar> \<le> int n"
proof (cases "bitlen n \<le> 53")
  case True
  then show ?thesis by (simp add: f64_round_def)
next
  case False
  have d: "\<bar>int (f64_round n) - int n\<bar> \<le> int (2 ^ (bitlen n - 54))"
    using f64_round_close [of n] by (rule abs_diff_le_of_nat)
  have "2 ^ 53 * \<bar>int (f64_round n) - int n\<bar> \<le> 2 ^ 53 * int (2 ^ (bitlen n - 54))"
    using d by simp
  also have "\<dots> = int (2 ^ 53 * 2 ^ (bitlen n - 54))"
    by simp
  also have "\<dots> \<le> int n"
    using half_step_le [of n] False by (simp only: of_nat_le_iff not_le)
  finally show ?thesis .
qed

section \<open>The result is a float64\<close>

text \<open>
  The rounded value is a significand of at most 53 bits times a power of two:
  rounding up can carry into bit 53, which is still representable
  (the significand \<open>2^53\<close> is \<open>2^52\<close> with the exponent one higher).
\<close>

lemma f64_round_significand:
  "\<exists>m k. f64_round n = m * 2 ^ k \<and> m \<le> 2 ^ 53"
proof (cases "bitlen n \<le> 53")
  case True
  then have "n < 2 ^ 53" by (simp add: bitlen_le_iff)
  with True show ?thesis by (intro exI [of _ n] exI [of _ 0]) (simp add: f64_round_def)
next
  case False
  let ?e = "bitlen n - 53"
  have "n < 2 ^ bitlen n" by (rule bitlen_less)
  also have "(2::nat) ^ bitlen n = 2 ^ 53 * 2 ^ ?e"
    using False by (intro power_split_le) simp
  finally have "n div 2 ^ ?e < 2 ^ 53"
    by (simp add: div_less_iff_less_mult)
  then have "Suc (n div 2 ^ ?e) \<le> 2 ^ 53" by simp
  moreover have "f64_round n =
      (if 2 ^ (?e - 1) < n mod 2 ^ ?e \<or> (n mod 2 ^ ?e = 2 ^ (?e - 1) \<and> odd (n div 2 ^ ?e))
       then Suc (n div 2 ^ ?e) else n div 2 ^ ?e) * 2 ^ ?e"
    using False by (simp add: f64_round_def Let_def)
  ultimately show ?thesis
    by (intro exI [of _ "if 2 ^ (?e - 1) < n mod 2 ^ ?e \<or> (n mod 2 ^ ?e = 2 ^ (?e - 1) \<and> odd (n div 2 ^ ?e))
       then Suc (n div 2 ^ ?e) else n div 2 ^ ?e"] exI [of _ ?e]) simp
qed

end
