(* ===== verification/Sysinfo.thy ===== *)
theory Sysinfo
  imports Kernel Float64
begin

text \<open>
  The snapshot type \<open>Sysinfo\<close> of \<open>src/sysinfo.go\<close> and its constructor \<open>Get\<close>.
  \<open>Get\<close> calls \<open>syscall.Sysinfo\<close>, returns its error unchanged, and otherwise
  converts the kernel's fields: the load averages to \<open>float64\<close> divided by
  \<open>65536.0\<close>, the uptime in seconds to a \<open>time.Duration\<close> in nanoseconds
  (an \<open>int64\<close> product that wraps), the process count widened to \<open>uint64\<close>, and
  the seven memory figures divided by \<open>uint64(si.Unit) * 1024\<close>. A division by a
  zero unit is Go's run-time panic, a value of \<open>get_error\<close> here.
\<close>

section \<open>The snapshot\<close>

text \<open>\<open>sync.Mutex\<close>: its state is whether it is held (Go's mutex has no owner).\<close>

datatype mutex = Unlocked | Locked

record sysinfo =
  Uptime :: i64 \<comment> \<open>\<open>time.Duration\<close>, nanoseconds\<close>
  Loads :: "real \<times> real \<times> real" \<comment> \<open>\<open>[3]float64\<close>, the exact value of each float\<close>
  Procs :: u64
  TotalRAM :: u64
  FreeRAM :: u64
  SharedRAM :: u64
  BufferRAM :: u64
  TotalSwap :: u64
  FreeSwap :: u64
  TotalHighRAM :: u64
  FreeHighRAM :: u64
  mu :: mutex

text \<open>\<open>&Sysinfo{}\<close>: every field at Go's zero value, the mutex unlocked.\<close>

definition sysinfo_zero :: sysinfo where
  "sysinfo_zero =
     \<lparr>Uptime = 0, Loads = (0, 0, 0), Procs = 0, TotalRAM = 0, FreeRAM = 0, SharedRAM = 0,
      BufferRAM = 0, TotalSwap = 0, FreeSwap = 0, TotalHighRAM = 0, FreeHighRAM = 0,
      mu = Unlocked\<rparr>"

section \<open>The conversions of Get\<close>

text \<open>\<open>scale := 65536.0\<close>: the kernel's load averages are fixed point with 16
  fractional bits.\<close>

definition scale :: real where
  "scale = 65536"

text \<open>\<open>float64(si.Loads[i]) / scale\<close>. The division by a power of two is exact in
  float64 (no underflow is possible for a quotient of an integer by \<open>2^16\<close>), so
  the only rounding is the conversion.\<close>

definition load_of :: "u64 \<Rightarrow> real" where
  "load_of x = float64_of_u64 x / scale"

text \<open>\<open>unit := uint64(si.Unit) * 1024\<close>, a \<open>uint64\<close> product.\<close>

definition mem_unit :: "u32 \<Rightarrow> u64" where
  "mem_unit u = ucast u * 1024"

text \<open>\<open>uint64(si.Totalram) / unit\<close> and its six siblings: \<open>uint64\<close> division,
  which truncates; the zero divisor is checked by \<open>Get\<close>.\<close>

definition kb_of :: "u64 \<Rightarrow> u64 \<Rightarrow> u64" where
  "kb_of unit x = x div unit"

text \<open>\<open>time.Duration(si.Uptime) * time.Second\<close>: an \<open>int64\<close> product with
  \<open>time.Second = 1000000000\<close>, which wraps around as Go's signed arithmetic does.\<close>

definition uptime_of :: "i64 \<Rightarrow> i64" where
  "uptime_of t = t * 1000000000"

section \<open>Get\<close>

text \<open>The ways \<open>Get\<close> does not return a snapshot: the error of the system call,
  returned as it is (\<open>return nil, err\<close>), and the run-time panic of a division
  by a zero unit.\<close>

datatype get_error = Errno errno | Panic_divide_by_zero

text \<open>The kernel's reply (\<open>e1\<close> and the structure it filled) is the input.
  The statements run in the source's order; the panic at the first division
  discards the half-built snapshot.\<close>

definition Get :: "errno \<Rightarrow> sysinfo_t \<Rightarrow> get_error + sysinfo" where
  "Get e1 info =
     (case Sysinfo_syscall e1 info of
        Inl err \<Rightarrow> Inl (Errno err)
      | Inr si \<Rightarrow>
          (let unit = mem_unit (si_Unit si);
               sis = sysinfo_zero
                 \<lparr>Loads := (case si_Loads si of (l0, l1, l2) \<Rightarrow> (load_of l0, load_of l1, load_of l2)),
                  Uptime := uptime_of (si_Uptime si),
                  Procs := ucast (si_Procs si)\<rparr>
           in if unit = 0 then Inl Panic_divide_by_zero
              else Inr (sis\<lparr>TotalRAM := kb_of unit (si_Totalram si),
                            FreeRAM := kb_of unit (si_Freeram si),
                            BufferRAM := kb_of unit (si_Bufferram si),
                            TotalSwap := kb_of unit (si_Totalswap si),
                            FreeSwap := kb_of unit (si_Freeswap si),
                            TotalHighRAM := kb_of unit (si_Totalhigh si),
                            FreeHighRAM := kb_of unit (si_Freehigh si),
                            mu := Unlocked\<rparr>)))"

text \<open>The kernel reply of the specification's example (section 8): load samples
  \<open>[65536, 131072, 196608]\<close>, an hour of uptime, 42 processes, \<open>Totalram = 2097152\<close>
  and \<open>Unit = 1024\<close>; the other figures are ours.\<close>

definition example_info :: sysinfo_t where
  "example_info =
     \<lparr>si_Uptime = 3600, si_Loads = (65536, 131072, 196608), si_Totalram = 2097152,
      si_Freeram = 1048576, si_Sharedram = 4096, si_Bufferram = 65536, si_Totalswap = 4194304,
      si_Freeswap = 4194304, si_Procs = 42, si_Totalhigh = 0, si_Freehigh = 0, si_Unit = 1024\<rparr>"

text \<open>Consistency of a kernel reply (free, buffer and high memory within the
  totals), and the well-formedness of a snapshot it leads to.\<close>

definition sysinfo_t_wf :: "sysinfo_t \<Rightarrow> bool" where
  "sysinfo_t_wf info \<longleftrightarrow>
     si_Freeram info \<le> si_Totalram info \<and> si_Bufferram info \<le> si_Totalram info \<and>
     si_Freeswap info \<le> si_Totalswap info \<and> si_Freehigh info \<le> si_Totalhigh info \<and>
     si_Totalhigh info \<le> si_Totalram info"

definition snapshot_wf :: "sysinfo \<Rightarrow> bool" where
  "snapshot_wf si \<longleftrightarrow>
     FreeRAM si \<le> TotalRAM si \<and> BufferRAM si \<le> TotalRAM si \<and> FreeSwap si \<le> TotalSwap si \<and>
     FreeHighRAM si \<le> TotalHighRAM si \<and> TotalHighRAM si \<le> TotalRAM si \<and>
     SharedRAM si = 0 \<and> mu si = Unlocked"

declare sysinfo_zero_def [model_defs] scale_def [model_defs] load_of_def [model_defs]
  mem_unit_def [model_defs] kb_of_def [model_defs] uptime_of_def [model_defs] Get_def [model_defs]

section \<open>Arithmetic of the conversions\<close>

lemma unat_mem_unit [simp]: "unat (mem_unit u) = unat u * 1024"
proof -
  have "unat u * 1024 < 2 ^ LENGTH(64)"
    using unat_u32_bound [of u] by simp
  then show ?thesis
    by (simp add: mem_unit_def unat_mult_no_wrap)
qed

lemma mem_unit_eq_0_iff [simp]: "mem_unit u = 0 \<longleftrightarrow> u = 0"
proof -
  have "mem_unit u = 0 \<longleftrightarrow> unat (mem_unit u) = 0" by (rule unat_0_iff [symmetric])
  also have "\<dots> \<longleftrightarrow> u = 0" by (simp add: unat_0_iff)
  finally show ?thesis .
qed

lemma unat_kb_of [simp]: "unat (kb_of unit x) = unat x div unat unit"
  by (simp add: kb_of_def unat_div)

lemma load_of_value: "load_of x = real (f64_round (unat x)) / 65536"
  by (simp add: load_of_def float64_of_u64_def scale_def)

text \<open>The three cases of \<open>Get\<close>, one per way out of the function.\<close>

lemma Get_Errno: "e1 \<noteq> 0 \<Longrightarrow> Get e1 info = Inl (Errno e1)"
  by (simp add: Get_def Sysinfo_syscall_def)

lemma Get_Panic: "e1 = 0 \<Longrightarrow> si_Unit info = 0 \<Longrightarrow> Get e1 info = Inl Panic_divide_by_zero"
  by (simp add: Get_def Sysinfo_syscall_def Let_def)

lemma Get_Inr_iff:
  "Get e1 info = Inr s \<longleftrightarrow>
     e1 = 0 \<and> si_Unit info \<noteq> 0 \<and>
     s = sysinfo_zero
       \<lparr>Loads := (case si_Loads info of (l0, l1, l2) \<Rightarrow> (load_of l0, load_of l1, load_of l2)),
        Uptime := uptime_of (si_Uptime info),
        Procs := ucast (si_Procs info),
        TotalRAM := kb_of (mem_unit (si_Unit info)) (si_Totalram info),
        FreeRAM := kb_of (mem_unit (si_Unit info)) (si_Freeram info),
        BufferRAM := kb_of (mem_unit (si_Unit info)) (si_Bufferram info),
        TotalSwap := kb_of (mem_unit (si_Unit info)) (si_Totalswap info),
        FreeSwap := kb_of (mem_unit (si_Unit info)) (si_Freeswap info),
        TotalHighRAM := kb_of (mem_unit (si_Unit info)) (si_Totalhigh info),
        FreeHighRAM := kb_of (mem_unit (si_Unit info)) (si_Freehigh info),
        mu := Unlocked\<rparr>"
  by (auto simp: Get_def Sysinfo_syscall_def Let_def)

lemma load_of_rel_error: "2 ^ 53 * \<bar>load_of x - real (unat x) / 65536\<bar> \<le> real (unat x) / 65536"
proof -
  have i: "2 ^ 53 * \<bar>int (f64_round (unat x)) - int (unat x)\<bar> \<le> int (unat x)"
    by (rule f64_round_rel_error)
  from i have "real_of_int (2 ^ 53 * \<bar>int (f64_round (unat x)) - int (unat x)\<bar>)
      \<le> real_of_int (int (unat x))"
    by (simp only: of_int_le_iff)
  then have "2 ^ 53 * \<bar>real (f64_round (unat x)) - real (unat x)\<bar> \<le> real (unat x)"
    by simp
  then show ?thesis
    by (simp add: load_of_value abs_minus_commute diff_divide_distrib [symmetric])
qed

lemma sint_uptime_second: "sint (1000000000 :: i64) = 1000000000"
  by simp

lemma uptime_of_unat:
  assumes "0 \<le> sint t" and "sint t \<le> 9223372036"
  shows "0 \<le> sint (uptime_of t) \<and> unat (uptime_of t) = nat (sint t) * 1000000000"
proof -
  have "- (2 ^ 63) \<le> sint t * 1000000000" "sint t * 1000000000 < 2 ^ 63"
    using assms by simp_all
  then have e: "sint (uptime_of t) = sint t * 1000000000"
    by (simp add: uptime_of_def sint_word_mult signed_take_bit_int_eq_self)
  have "uint (uptime_of t) = sint (uptime_of t)"
    using assms by (simp add: uint_sint e take_bit_int_eq_self)
  then have "unat (uptime_of t) = nat (sint t * 1000000000)" by (simp add: unat_eq_nat_uint e)
  with assms e show ?thesis by (simp add: nat_mult_distrib)
qed

lemma Get_example_Inr: "\<exists>si. Get 0 example_info = Inr si"
  by (simp add: Get_Inr_iff example_info_def)

lemma kb_of_mono: "x \<le> y \<Longrightarrow> kb_of unit x \<le> kb_of unit y"
  by (simp add: word_le_nat_alt div_le_mono)

section \<open>Properties of Get\<close>

text \<open>C1. When the system call fails, \<open>Get\<close> returns the kernel's error number
  as its error and no snapshot.\<close>

theorem Get_returns_kernel_error: "e1 \<noteq> 0 \<Longrightarrow> Get e1 info = Inl (Errno e1)"
  by (simp add: Get_def Sysinfo_syscall_def)

theorem Get_returns_kernel_error_witness: "Get 38 example_info = Inl (Errno 38)"
  using Get_returns_kernel_error [of 38 example_info] by simp

text \<open>C2. When the system call succeeds and the unit is nonzero, \<open>Get\<close> returns a
  snapshot whose seven memory figures are the kernel's counts divided (truncating)
  by \<open>Unit * 1024\<close>, whose process count is the kernel's, whose uptime is the
  kernel's seconds times \<open>10^9\<close> as an \<open>int64\<close> product, and whose mutex is free.\<close>

theorem Get_success_fields:
  assumes "e1 = 0" and "si_Unit info \<noteq> 0"
  shows "\<exists>s. Get e1 info = Inr s \<and>
    unat (TotalRAM s) = unat (si_Totalram info) div (unat (si_Unit info) * 1024) \<and>
    unat (FreeRAM s) = unat (si_Freeram info) div (unat (si_Unit info) * 1024) \<and>
    unat (BufferRAM s) = unat (si_Bufferram info) div (unat (si_Unit info) * 1024) \<and>
    unat (TotalSwap s) = unat (si_Totalswap info) div (unat (si_Unit info) * 1024) \<and>
    unat (FreeSwap s) = unat (si_Freeswap info) div (unat (si_Unit info) * 1024) \<and>
    unat (TotalHighRAM s) = unat (si_Totalhigh info) div (unat (si_Unit info) * 1024) \<and>
    unat (FreeHighRAM s) = unat (si_Freehigh info) div (unat (si_Unit info) * 1024) \<and>
    unat (Procs s) = unat (si_Procs info) \<and>
    Uptime s = si_Uptime info * 1000000000 \<and>
    mu s = Unlocked"
proof -
  obtain s where s: "Get e1 info = Inr s"
    using assms by (auto simp: Get_Inr_iff)
  then have "s = sysinfo_zero
       \<lparr>Loads := (case si_Loads info of (l0, l1, l2) \<Rightarrow> (load_of l0, load_of l1, load_of l2)),
        Uptime := uptime_of (si_Uptime info),
        Procs := ucast (si_Procs info),
        TotalRAM := kb_of (mem_unit (si_Unit info)) (si_Totalram info),
        FreeRAM := kb_of (mem_unit (si_Unit info)) (si_Freeram info),
        BufferRAM := kb_of (mem_unit (si_Unit info)) (si_Bufferram info),
        TotalSwap := kb_of (mem_unit (si_Unit info)) (si_Totalswap info),
        FreeSwap := kb_of (mem_unit (si_Unit info)) (si_Freeswap info),
        TotalHighRAM := kb_of (mem_unit (si_Unit info)) (si_Totalhigh info),
        FreeHighRAM := kb_of (mem_unit (si_Unit info)) (si_Freehigh info),
        mu := Unlocked\<rparr>"
    by (simp add: Get_Inr_iff)
  with s show ?thesis
    by (simp add: sysinfo_zero_def uptime_of_def)
qed

theorem Get_success_fields_witness:
  "\<exists>s. Get 0 example_info = Inr s \<and> unat (TotalRAM s) = 2 \<and> unat (FreeRAM s) = 1 \<and>
     unat (Procs s) = 42 \<and> Uptime s = 3600000000000 \<and> mu s = Unlocked"
  using Get_success_fields [of 0 example_info] by (simp add: example_info_def) blast

text \<open>C3. When the system call succeeds but reports a zero unit, the first
  division panics (Go's run-time error "integer divide by zero"): \<open>Get\<close>
  returns neither a snapshot nor the kernel's error.\<close>

theorem Get_zero_unit_panics:
  "e1 = 0 \<Longrightarrow> si_Unit info = 0 \<Longrightarrow> Get e1 info = Inl Panic_divide_by_zero"
  by (simp add: Get_def Sysinfo_syscall_def Let_def)

theorem Get_zero_unit_panics_witness:
  "Get 0 (example_info\<lparr>si_Unit := 0\<rparr>) = Inl Panic_divide_by_zero"
  using Get_zero_unit_panics [of 0 "example_info\<lparr>si_Unit := 0\<rparr>"] by simp

text \<open>C4. Every load average of a snapshot is the kernel's fixed-point sample
  divided by 65536, exactly, for samples below \<open>2^53\<close> (every sample a real
  kernel reports: a load average of \<open>2^37\<close> runnable tasks).\<close>

theorem Get_loads_exact:
  assumes "Get e1 info = Inr s" and "si_Loads info = (a, b, c)"
    and "unat a < 2 ^ 53" and "unat b < 2 ^ 53" and "unat c < 2 ^ 53"
  shows "Loads s = (real (unat a) / 65536, real (unat b) / 65536, real (unat c) / 65536)"
  using assms by (simp add: Get_Inr_iff load_of_value f64_round_exact)

theorem Get_loads_exact_witness:
  "\<exists>s. Get 0 example_info = Inr s \<and> Loads s = (1, 2, 3)"
proof -
  obtain s where s: "Get 0 example_info = Inr s"
    by (simp add: Get_Inr_iff example_info_def)
  have "Loads s = (real (unat (65536::u64)) / 65536, real (unat (131072::u64)) / 65536,
                   real (unat (196608::u64)) / 65536)"
    using Get_loads_exact [OF s] by (simp add: example_info_def)
  with s show ?thesis by simp
qed

text \<open>C5. Whatever the kernel reports, each load average differs from the sample
  divided by 65536 by at most \<open>2^-53\<close> of it: the conversion to \<open>float64\<close> is
  the only rounding.\<close>

theorem Get_loads_rel_error:
  assumes "Get e1 info = Inr s" and "si_Loads info = (a, b, c)"
  shows "2 ^ 53 * \<bar>fst (Loads s) - real (unat a) / 65536\<bar> \<le> real (unat a) / 65536 \<and>
         2 ^ 53 * \<bar>fst (snd (Loads s)) - real (unat b) / 65536\<bar> \<le> real (unat b) / 65536 \<and>
         2 ^ 53 * \<bar>snd (snd (Loads s)) - real (unat c) / 65536\<bar> \<le> real (unat c) / 65536"
proof -
  have "Loads s = (load_of a, load_of b, load_of c)"
    using assms by (simp add: Get_Inr_iff)
  then show ?thesis
    using load_of_rel_error [of a] load_of_rel_error [of b] load_of_rel_error [of c] by simp
qed

theorem Get_loads_rel_error_witness:
  "\<exists>s. Get 0 (example_info\<lparr>si_Loads := (2 ^ 60 + 7, 0, 1)\<rparr>) = Inr s \<and>
     2 ^ 53 * \<bar>fst (Loads s) - real (unat (2 ^ 60 + 7 :: u64)) / 65536\<bar>
       \<le> real (unat (2 ^ 60 + 7 :: u64)) / 65536"
proof -
  obtain s where s: "Get 0 (example_info\<lparr>si_Loads := (2 ^ 60 + 7, 0, 1)\<rparr>) = Inr s"
    by (simp add: Get_Inr_iff example_info_def)
  from Get_loads_rel_error [OF s] s show ?thesis by auto
qed

text \<open>C6. \<open>Get\<close> never fills \<open>SharedRAM\<close>: every snapshot it returns has it at
  zero, whatever the kernel reports as shared memory.\<close>

theorem Get_SharedRAM_zero: "Get e1 info = Inr s \<Longrightarrow> SharedRAM s = 0"
  by (simp add: Get_Inr_iff sysinfo_zero_def)

theorem Get_SharedRAM_zero_witness:
  "\<exists>s. Get 0 example_info = Inr s \<and> si_Sharedram example_info \<noteq> 0 \<and> SharedRAM s = 0"
proof -
  obtain s where s: "Get 0 example_info = Inr s"
    by (simp add: Get_Inr_iff example_info_def)
  with Get_SharedRAM_zero [OF s] show ?thesis by (simp add: example_info_def)
qed

text \<open>C7. Doubling the unit the kernel reports halves each memory figure (rounding
  down), for every unit whose double is still a \<open>uint32\<close>: \<open>Get\<close> divides by the
  unit where a conversion of unit-sized counts to kilobytes would multiply.\<close>

theorem kb_of_unit_doubling:
  assumes "unat u < 2 ^ 31"
  shows "kb_of (mem_unit (2 * u)) x = kb_of (mem_unit u) x div 2"
proof -
  have "unat (2 * u) = 2 * unat u"
    using assms by (intro unat_mult_no_wrap [THEN trans]) simp_all
  then have "unat (kb_of (mem_unit (2 * u)) x) = unat x div (unat u * 1024) div 2"
    by (simp add: div_mult2_eq mult.commute mult.left_commute)
  also have "\<dots> = unat (kb_of (mem_unit u) x div 2)"
    by (simp add: unat_div)
  finally show ?thesis by (simp only: word_unat_eq_iff)
qed

theorem kb_of_unit_doubling_witness:
  "unat (1024 :: u32) < 2 ^ 31 \<and>
   kb_of (mem_unit (2 * 1024)) 2097152 = kb_of (mem_unit 1024) 2097152 div 2"
  using kb_of_unit_doubling [of "1024 :: u32" 2097152] by simp

text \<open>C8. The uptime of a snapshot is exactly the kernel's seconds times \<open>10^9\<close>
  nanoseconds for every uptime of at most 9223372036 seconds (292 years) either
  way: below that the \<open>int64\<close> product does not wrap.\<close>

theorem uptime_of_no_overflow:
  assumes "\<bar>sint t\<bar> \<le> 9223372036"
  shows "sint (uptime_of t) = sint t * 1000000000"
proof -
  have "- (2 ^ 63) \<le> sint t * 1000000000"
    using assms by (simp add: abs_le_iff)
  moreover have "sint t * 1000000000 < 2 ^ 63"
    using assms by (simp add: abs_le_iff)
  ultimately show ?thesis
    by (simp add: uptime_of_def sint_word_mult signed_take_bit_int_eq_self)
qed

theorem uptime_of_no_overflow_witness:
  "\<bar>sint (3600 :: i64)\<bar> \<le> 9223372036 \<and> sint (uptime_of 3600) = 3600000000000"
  using uptime_of_no_overflow [of 3600] by simp



text \<open>C22. Well-formedness: from a consistent kernel reply \<open>Get\<close> builds a
  well-formed snapshot: every free or buffer figure within its total, high memory
  within total RAM, \<open>SharedRAM\<close> zero and the mutex free. The truncating division
  by the unit keeps every order between the kernel's counts.\<close>

theorem Get_snapshot_wf:
  assumes "sysinfo_t_wf info" and "Get e1 info = Inr si"
  shows "snapshot_wf si"
  using assms by (auto simp: Get_Inr_iff sysinfo_t_wf_def snapshot_wf_def sysinfo_zero_def
      intro: kb_of_mono)

theorem Get_snapshot_wf_witness:
  "\<exists>si. sysinfo_t_wf example_info \<and> Get 0 example_info = Inr si \<and> snapshot_wf si"
proof -
  obtain si where g: "Get 0 example_info = Inr si" using Get_example_Inr by blast
  have w: "sysinfo_t_wf example_info" by (simp add: sysinfo_t_wf_def example_info_def)
  from Get_snapshot_wf [OF w g] w g show ?thesis by blast
qed

end
