(* ===== verification/GoFmt.thy ===== *)
theory GoFmt
  imports Go_Prelude
begin

text \<open>
  The formatting of Go's standard library that \<open>Sysinfo.String\<close> relies on,
  modelled from the library's code: \<open>%d\<close> of an unsigned integer
  (\<open>fmt.fmtInteger\<close>, base 10), \<open>%2.2f\<close> of a float (\<open>strconv.FormatFloat\<close>
  with format \<open>'f'\<close> and precision 2, padded by \<open>fmt.pad\<close> to width 2) and
  \<open>%v\<close> of a \<open>time.Duration\<close> (its \<open>String\<close> method, built from \<open>fmtFrac\<close>
  and \<open>fmtInt\<close>). Both integer loops are proved equal to one reference,
  \<open>decimal\<close>, which a parser inverts; \<open>fmtFrac\<close> is proved to print the
  low digits of its argument with trailing zeros removed.
\<close>

section \<open>Digits\<close>

definition digit_char :: "nat \<Rightarrow> char" where
  "digit_char d = char_of (48 + d)"

definition is_digit :: "char \<Rightarrow> bool" where
  "is_digit c \<longleftrightarrow> (48::nat) \<le> of_char c \<and> (of_char c :: nat) \<le> 57"

definition digit_of :: "char \<Rightarrow> nat" where
  "digit_of c = (of_char c :: nat) - 48"

text \<open>The reference: the decimal notation of a natural number, most significant
  digit first, \<open>''0''\<close> for zero.\<close>

fun decimal :: "nat \<Rightarrow> string" where
  "decimal n = (if n < 10 then [digit_char n] else decimal (n div 10) @ [digit_char (n mod 10)])"

text \<open>Its inverse on strings of digits: \<open>None\<close> for an empty string or one with
  another character.\<close>

definition parse_decimal :: "string \<Rightarrow> nat option" where
  "parse_decimal s =
     (if s \<noteq> [] \<and> list_all is_digit s then Some (foldl (\<lambda>a c. 10 * a + digit_of c) 0 s) else None)"

section \<open>time.fmtInt\<close>

text \<open>
  \<^verbatim>\<open>if v == 0 { w--; buf[w] = '0' } else { for v > 0 { w--; buf[w] = byte(v%10) + '0'; v /= 10 } }\<close>
  The buffer is filled from its end, so each digit goes in front of those
  written before.
\<close>

fun fmt_int_loop :: "nat \<Rightarrow> string \<Rightarrow> string" where
  "fmt_int_loop v buf = (if 0 < v then fmt_int_loop (v div 10) (digit_char (v mod 10) # buf) else buf)"

definition fmtInt :: "nat \<Rightarrow> string" where
  "fmtInt v = (if v = 0 then [CHR ''0''] else fmt_int_loop v [])"

section \<open>fmt.fmtInteger, base 10\<close>

text \<open>
  \<^verbatim>\<open>for u >= 10 { i--; next := u / 10; buf[i] = byte('0' + u - next*10); u = next }; i--; buf[i] = digits[u]\<close>
\<close>

fun fmt_integer_loop :: "nat \<Rightarrow> string \<Rightarrow> string" where
  "fmt_integer_loop u buf =
     (if 10 \<le> u then fmt_integer_loop (u div 10) (digit_char (u - u div 10 * 10) # buf)
      else digit_char u # buf)"

text \<open>\<open>%d\<close> of a \<open>uint64\<close>: no sign, no width, no padding.\<close>

definition fmt_d :: "u64 \<Rightarrow> string" where
  "fmt_d x = fmt_integer_loop (unat x) []"

section \<open>time.fmtFrac\<close>

text \<open>
  \<^verbatim>\<open>for i := 0; i < prec; i++ { digit := v % 10; print = print || digit != 0;\<close>
  \<^verbatim>\<open>  if print { w--; buf[w] = byte(digit) + '0' }; v /= 10 }; if print { w--; buf[w] = '.' }\<close>
  The loop writes the \<open>prec\<close> low digits of \<open>v\<close> from the right, skipping
  zeros until the first nonzero one; it returns what it wrote and \<open>v / 10^prec\<close>.
  The recursion counts the iterations left.
\<close>

fun frac_loop :: "nat \<Rightarrow> nat \<Rightarrow> bool \<Rightarrow> string \<Rightarrow> string \<times> bool \<times> nat" where
  "frac_loop 0 v p buf = (buf, p, v)"
| "frac_loop (Suc i) v p buf =
     (let digit = v mod 10; p' = p \<or> digit \<noteq> 0
      in frac_loop i (v div 10) p' (if p' then digit_char digit # buf else buf))"

definition fmtFrac :: "nat \<Rightarrow> nat \<Rightarrow> string \<times> nat" where
  "fmtFrac v prec =
     (case frac_loop prec v False [] of (buf, p, v') \<Rightarrow> (if p then CHR ''.'' # buf else buf, v'))"

section \<open>time.Duration.String\<close>

text \<open>The micro sign U+00B5 in UTF-8, two bytes.\<close>

definition micro_sign :: string where
  "micro_sign = [char_of (194::nat), char_of (181::nat)]"

text \<open>
  \<open>Duration.format\<close>: the magnitude \<open>u := uint64(d)\<close>, negated for a negative
  \<open>d\<close> (a \<open>uint64\<close> negation, so the most negative duration is handled);
  below one second a single unit (\<open>ns\<close>, \<open>\<mu>s\<close>, \<open>ms\<close>) with 0, 3 or 6
  fraction digits; otherwise seconds with 9 fraction digits, preceded by
  minutes and hours when they are nonzero.
\<close>

definition Duration_String :: "i64 \<Rightarrow> string" where
  "Duration_String d =
     (let neg = sint d < 0;
          n = unat (if neg then - d else d);
          body =
            (if n < 1000000000 then
               (if n = 0 then ''0s''
                else (case (if n < 1000 then (0, ''n'') else if n < 1000000 then (3, micro_sign)
                            else (6, ''m'')) of
                        (prec, unit) \<Rightarrow> (case fmtFrac n prec of (f, v) \<Rightarrow> fmtInt v @ f @ unit @ ''s'')))
             else
               (case fmtFrac n 9 of
                  (f, v) \<Rightarrow>
                    (let secs = fmtInt (v mod 60) @ f @ ''s''; m = v div 60
                     in if 0 < m then
                          (let h = m div 60
                           in (if 0 < h then fmtInt h @ ''h'' else []) @ fmtInt (m mod 60) @ ''m'' @ secs)
                        else secs)))
      in if neg then CHR ''-'' # body else body)"

section \<open>%2.2f\<close>

text \<open>
  \<open>strconv.FormatFloat(x, 'f', 2, 64)\<close> formats the exact binary value of
  \<open>x\<close> as a decimal (\<open>bigFtoa\<close>: format \<open>'f'\<close> with a precision always takes the
  exact multi-precision path) and rounds it at two decimals with
  \<open>shouldRoundUp\<close>: up above the half, down below, to even at exactly the half.
  The sign is printed for a negative value even when the digits round to zero.
\<close>

definition round_half_even :: "real \<Rightarrow> nat" where
  "round_half_even y =
     (let n = nat \<lfloor>y\<rfloor>; r = y - real n
      in if 1 / 2 < r then Suc n else if r < 1 / 2 then n else if even n then n else Suc n)"

definition fmt_fixed2 :: "real \<Rightarrow> string" where
  "fmt_fixed2 x =
     (let k = round_half_even (\<bar>x\<bar> * 100);
          body = decimal (k div 100) @ CHR ''.'' # [digit_char (k mod 100 div 10), digit_char (k mod 10)]
      in if x < 0 then CHR ''-'' # body else body)"

text \<open>\<open>fmt.pad\<close> with a width and neither the minus nor the zero flag: spaces
  on the left up to the width (counted in runes, bytes here: the text is ASCII).\<close>

definition fmt_pad :: "nat \<Rightarrow> string \<Rightarrow> string" where
  "fmt_pad width s = replicate (width - length s) (CHR '' '') @ s"

definition fmt_f22 :: "real \<Rightarrow> string" where
  "fmt_f22 x = fmt_pad 2 (fmt_fixed2 x)"

section \<open>Reference specifications\<close>

text \<open>The \<open>i\<close> low decimal digits of \<open>v\<close>, most significant first, with leading
  zeros; and a string with its trailing \<open>'0'\<close> characters removed.\<close>

fun low_digits :: "nat \<Rightarrow> nat \<Rightarrow> string" where
  "low_digits 0 v = []"
| "low_digits (Suc i) v = low_digits i (v div 10) @ [digit_char (v mod 10)]"

definition strip_zeros :: "string \<Rightarrow> string" where
  "strip_zeros s = rev (dropWhile (\<lambda>c. c = CHR ''0'') (rev s))"

text \<open>A whole number of seconds as hours, minutes and seconds, each unit shown
  from the largest nonzero one down.\<close>

definition dur_hms :: "nat \<Rightarrow> string" where
  "dur_hms s =
     (if 3600 \<le> s then decimal (s div 3600) @ ''h'' else []) @
     (if 60 \<le> s then decimal (s div 60 mod 60) @ ''m'' else []) @ decimal (s mod 60) @ ''s''"

text \<open>Reading \<open>ddd.dd\<close> back: the digits around a point two places from the
  end, as hundredths.\<close>

definition parse_fixed2 :: "string \<Rightarrow> real option" where
  "parse_fixed2 s =
     (if 3 \<le> length s \<and> s ! (length s - 3) = CHR ''.''
      then map_option (\<lambda>n. real n / 100) (parse_decimal (take (length s - 3) s @ drop (length s - 2) s))
      else None)"

declare decimal.simps [simp del] fmt_int_loop.simps [simp del] fmt_integer_loop.simps [simp del]

declare digit_char_def [model_defs] is_digit_def [model_defs] digit_of_def [model_defs]
  decimal.simps [model_defs] parse_decimal_def [model_defs] fmt_int_loop.simps [model_defs]
  fmtInt_def [model_defs] fmt_integer_loop.simps [model_defs] fmt_d_def [model_defs]
  fmtFrac_def [model_defs] micro_sign_def [model_defs]
  Duration_String_def [model_defs] round_half_even_def [model_defs] fmt_fixed2_def [model_defs]
  fmt_pad_def [model_defs] fmt_f22_def [model_defs]

section \<open>Evaluation on numerals\<close>

text \<open>The loop counters of \<open>frac_loop\<close> and \<open>low_digits\<close> are numerals in the
  code (\<open>3\<close>, \<open>6\<close>, \<open>9\<close>): these equations let the simplifier run them.\<close>

lemma frac_loop_numeral [simp]:
  "frac_loop (numeral k) v p buf =
     (let digit = v mod 10; p' = p \<or> digit \<noteq> 0
      in frac_loop (pred_numeral k) (v div 10) p' (if p' then digit_char digit # buf else buf))"
  by (simp only: numeral_eq_Suc frac_loop.simps)

lemma low_digits_numeral [simp]:
  "low_digits (numeral k) v = low_digits (pred_numeral k) (v div 10) @ [digit_char (v mod 10)]"
  by (simp only: numeral_eq_Suc low_digits.simps)

section \<open>Digits: basic facts\<close>

lemma digit_of_digit_char [simp]: "d < 10 \<Longrightarrow> digit_of (digit_char d) = d"
  by (simp add: digit_of_def digit_char_def)

lemma is_digit_digit_char [simp]: "d < 10 \<Longrightarrow> is_digit (digit_char d)"
  by (simp add: is_digit_def digit_char_def)

lemma digit_char_inject [simp]: "d < 10 \<Longrightarrow> e < 10 \<Longrightarrow> digit_char d = digit_char e \<longleftrightarrow> d = e"
  by (metis digit_of_digit_char)

lemma digit_char_0: "digit_char 0 = CHR ''0''"
  by (simp add: digit_char_def char_of_def bit_0)

lemma decimal_simps:
  "n < 10 \<Longrightarrow> decimal n = [digit_char n]"
  "10 \<le> n \<Longrightarrow> decimal n = decimal (n div 10) @ [digit_char (n mod 10)]"
  by (simp_all add: decimal.simps)

lemma decimal_not_Nil [simp]: "decimal n \<noteq> []"
  by (cases "n < 10") (simp_all add: decimal_simps)

lemma decimal_digits: "list_all is_digit (decimal n)"
proof (induction n rule: decimal.induct)
  case (1 n)
  then show ?case by (cases "n < 10") (simp_all add: decimal_simps)
qed

lemma set_decimal: "c \<in> set (decimal n) \<Longrightarrow> is_digit c"
  using decimal_digits [of n] by (simp add: list_all_iff)

section \<open>Equivalence of the two loops with the reference\<close>

lemma fmt_integer_loop_decimal: "fmt_integer_loop u buf = decimal u @ buf"
proof (induction u buf rule: fmt_integer_loop.induct)
  case (1 u buf)
  show ?case
  proof (cases "10 \<le> u")
    case True
    have "u - u div 10 * 10 = u mod 10" by (simp add: minus_div_mult_eq_mod)
    with True "1.IH" show ?thesis
      by (simp add: fmt_integer_loop.simps [of u] decimal_simps)
  next
    case False
    then show ?thesis by (simp add: fmt_integer_loop.simps [of u] decimal_simps)
  qed
qed

lemma fmt_int_loop_decimal: "0 < v \<Longrightarrow> fmt_int_loop v buf = decimal v @ buf"
proof (induction v buf rule: fmt_int_loop.induct)
  case (1 v buf)
  show ?case
  proof (cases "v < 10")
    case True
    with "1.prems" have "fmt_int_loop (v div 10) (digit_char (v mod 10) # buf) = digit_char v # buf"
      by (simp add: fmt_int_loop.simps)
    with "1.prems" True show ?thesis
      by (simp add: fmt_int_loop.simps [of v] decimal_simps)
  next
    case False
    with "1.IH" "1.prems" show ?thesis
      by (simp add: fmt_int_loop.simps [of v] decimal_simps)
  qed
qed

lemma fmtInt_decimal: "fmtInt v = decimal v"
  by (simp add: fmtInt_def fmt_int_loop_decimal decimal_simps digit_char_0)

lemma fmt_d_decimal: "fmt_d x = decimal (unat x)"
  by (simp add: fmt_d_def fmt_integer_loop_decimal)

section \<open>Parsing the reference back\<close>

lemma foldl_digits_decimal:
  "foldl (\<lambda>a c. 10 * a + digit_of c) a (decimal n) = 10 ^ length (decimal n) * a + n"
proof (induction n arbitrary: a rule: decimal.induct)
  case (1 n)
  show ?case
  proof (cases "n < 10")
    case True
    then show ?thesis by (simp add: decimal_simps)
  next
    case False
    then have "foldl (\<lambda>a c. 10 * a + digit_of c) a (decimal n)
        = 10 * (10 ^ length (decimal (n div 10)) * a + n div 10) + n mod 10"
      using "1.IH" by (simp add: decimal_simps)
    also have "\<dots> = 10 ^ length (decimal n) * a + n"
      using False by (simp add: decimal_simps algebra_simps)
    finally show ?thesis .
  qed
qed

lemma parse_decimal_decimal: "parse_decimal (decimal n) = Some n"
  using decimal_digits [of n] by (simp add: parse_decimal_def foldl_digits_decimal)

lemma decimal_inject: "decimal m = decimal n \<longleftrightarrow> m = n"
  by (metis option.inject parse_decimal_decimal)

section \<open>fmtFrac against its reference\<close>

lemma strip_zeros_snoc_zero [simp]: "strip_zeros (xs @ [CHR ''0'']) = strip_zeros xs"
  by (simp add: strip_zeros_def)

lemma strip_zeros_snoc_other: "c \<noteq> CHR ''0'' \<Longrightarrow> strip_zeros (xs @ [c]) = xs @ [c]"
  by (simp add: strip_zeros_def)

lemma digit_char_nonzero: "0 < d \<Longrightarrow> d < 10 \<Longrightarrow> digit_char d \<noteq> CHR ''0''"
  using digit_char_inject [of d 0] by (simp add: digit_char_0)

lemma mod_pow10_Suc: "(v::nat) mod (10 * 10 ^ i) = 10 * (v div 10 mod 10 ^ i) + v mod 10"
  by (simp add: mod_mult2_eq)

lemma div_pow10_Suc: "(v::nat) div (10 * 10 ^ i) = v div 10 div 10 ^ i"
  by (simp add: div_mult2_eq)

lemma strip_zeros_low_digits_0: "v mod 10 ^ i = 0 \<Longrightarrow> strip_zeros (low_digits i v) = []"
proof (induction i arbitrary: v)
  case 0
  then show ?case by (simp add: strip_zeros_def)
next
  case (Suc i)
  then have "v mod 10 = 0" and "v div 10 mod 10 ^ i = 0"
    by (simp_all add: mod_pow10_Suc)
  with Suc.IH show ?case by (simp add: digit_char_0)
qed

text \<open>Once a digit has been printed, every later digit is printed.\<close>

lemma frac_loop_printing: "frac_loop i v True buf = (low_digits i v @ buf, True, v div 10 ^ i)"
proof (induction i arbitrary: v buf)
  case 0
  then show ?case by simp
next
  case (Suc i)
  then show ?case by (simp add: div_pow10_Suc)
qed

text \<open>From the start, the loop prints the low digits without their trailing
  zeros, and has printed something exactly when they are not all zero.\<close>

lemma frac_loop_start:
  "frac_loop i v False [] = (strip_zeros (low_digits i v), v mod 10 ^ i \<noteq> 0, v div 10 ^ i)"
proof (induction i arbitrary: v)
  case 0
  then show ?case by (simp add: strip_zeros_def)
next
  case (Suc i)
  show ?case
  proof (cases "v mod 10 = 0")
    case True
    with Suc.IH [of "v div 10"] show ?thesis
      by (simp add: mod_pow10_Suc div_pow10_Suc digit_char_0)
  next
    case False
    then have "digit_char (v mod 10) \<noteq> CHR ''0''" by (simp add: digit_char_nonzero)
    with False show ?thesis
      by (simp add: frac_loop_printing mod_pow10_Suc div_pow10_Suc strip_zeros_snoc_other)
  qed
qed

lemma fmtFrac_spec:
  "fmtFrac v prec =
     (if v mod 10 ^ prec = 0 then [] else CHR ''.'' # strip_zeros (low_digits prec v), v div 10 ^ prec)"
  by (simp add: fmtFrac_def frac_loop_start strip_zeros_low_digits_0)

section \<open>Duration.String of whole seconds\<close>

lemma Duration_String_whole_seconds:
  assumes "0 \<le> sint d" and "unat d = s * 1000000000" and "0 < s"
  shows "Duration_String d = dur_hms s"
proof -
  have frac: "fmtFrac (s * 1000000000) 9 = ([], s)"
    by (simp add: fmtFrac_spec)
  have n: "\<not> s * 1000000000 < (1000000000::nat)"
    using assms(3) by simp
  have body: "Duration_String d =
      (let secs = fmtInt (s mod 60) @ ''s''; m = s div 60
       in if 0 < m then
            (let h = m div 60 in (if 0 < h then fmtInt h @ ''h'' else []) @ fmtInt (m mod 60) @ ''m'' @ secs)
          else secs)"
    using assms(1,2) n by (simp add: Duration_String_def Let_def frac not_less)
  have h: "s div 60 div 60 = s div 3600"
    by (simp add: div_mult2_eq)
  show ?thesis
  proof (cases "60 \<le> s")
    case False
    then show ?thesis by (simp add: body dur_hms_def fmtInt_decimal)
  next
    case True
    then have m: "0 < s div 60" by simp
    show ?thesis
    proof (cases "3600 \<le> s")
      case False
      then have "s div 3600 = 0" by simp
      with True m h show ?thesis by (simp add: body dur_hms_def fmtInt_decimal Let_def)
    next
      case big: True
      then have "0 < s div 3600" by simp
      with True big m h show ?thesis by (simp add: body dur_hms_def fmtInt_decimal Let_def)
    qed
  qed
qed

section \<open>%2.2f: rounding and reading back\<close>

lemma half_even_choice_close:
  fixes n :: nat and y :: real
  assumes "real n \<le> y" and "y < real n + 1"
  shows "\<bar>real (if 1 / 2 < y - real n then Suc n else if y - real n < 1 / 2 then n
                else if even n then n else Suc n) - y\<bar> \<le> 1 / 2"
  using assms by (auto simp: abs_le_iff)

lemma round_half_even_close:
  assumes "0 \<le> y"
  shows "\<bar>real (round_half_even y) - y\<bar> \<le> 1 / 2"
proof -
  have e: "real (nat \<lfloor>y\<rfloor>) = of_int \<lfloor>y\<rfloor>"
    using assms by simp
  have "real (nat \<lfloor>y\<rfloor>) \<le> y" and "y < real (nat \<lfloor>y\<rfloor>) + 1"
    unfolding e by (rule of_int_floor_le) (rule real_of_int_floor_add_one_gt)
  then show ?thesis
    unfolding round_half_even_def Let_def by (rule half_even_choice_close)
qed

lemma round_half_even_of_nat [simp]: "round_half_even (real k) = k"
  by (simp add: round_half_even_def)

lemma round_half_even_numeral [simp]: "round_half_even (numeral k) = numeral k"
  using round_half_even_of_nat [of "numeral k"] by simp

lemma round_half_even_0 [simp]: "round_half_even 0 = 0"
  using round_half_even_of_nat [of 0] by simp

lemma hundredths_split: "10 * (10 * (k div 100) + k mod 100 div 10) + k mod 10 = (k::nat)"
proof -
  have a: "10 * (k mod 100 div 10) + k mod 100 mod 10 = k mod 100" by (rule mult_div_mod_eq)
  have b: "100 * (k div 100) + k mod 100 = k" by (rule mult_div_mod_eq)
  have c: "k mod 100 mod 10 = k mod 10" by (simp add: mod_mod_cancel)
  have "10 * (10 * (k div 100) + k mod 100 div 10) + k mod 10
      = 100 * (k div 100) + (10 * (k mod 100 div 10) + k mod 100 mod 10)"
    by (simp only: c distrib_left mult.assoc add.assoc)
  also have "\<dots> = k" by (simp only: a b)
  finally show ?thesis .
qed

lemma parse_fixed2_hundredths:
  "parse_fixed2 (decimal (k div 100) @ CHR ''.'' # [digit_char (k mod 100 div 10), digit_char (k mod 10)])
     = Some (real k / 100)"
proof -
  let ?s = "decimal (k div 100) @ CHR ''.'' # [digit_char (k mod 100 div 10), digit_char (k mod 10)]"
  have take: "take (length ?s - 3) ?s = decimal (k div 100)"
    and drop: "drop (length ?s - 2) ?s = [digit_char (k mod 100 div 10), digit_char (k mod 10)]"
    and dot: "?s ! (length ?s - 3) = CHR ''.''"
    by (simp_all add: nth_append)
  have digits: "list_all is_digit (decimal (k div 100) @ [digit_char (k mod 100 div 10), digit_char (k mod 10)])"
    by (simp add: decimal_digits)
  have "foldl (\<lambda>a c. 10 * a + digit_of c) 0
          (decimal (k div 100) @ [digit_char (k mod 100 div 10), digit_char (k mod 10)]) = k"
    using foldl_digits_decimal [of 0 "k div 100"] hundredths_split [of k] by simp
  with take drop dot digits show ?thesis
    by (simp add: parse_fixed2_def parse_decimal_def)
qed

lemma fmt_fixed2_nonneg:
  "0 \<le> x \<Longrightarrow> fmt_fixed2 x =
     decimal (round_half_even (x * 100) div 100) @
     CHR ''.'' # [digit_char (round_half_even (x * 100) mod 100 div 10),
                  digit_char (round_half_even (x * 100) mod 10)]"
  by (simp add: fmt_fixed2_def Let_def)

lemma length_fmt_fixed2: "4 \<le> length (fmt_fixed2 x)"
proof -
  have "1 \<le> length (decimal (round_half_even (\<bar>x\<bar> * 100) div 100))"
    by (simp add: Suc_le_eq)
  then show ?thesis
    by (cases "x < 0") (simp_all add: fmt_fixed2_def Let_def)
qed

section \<open>The characters each formatter writes\<close>

lemma set_low_digits: "c \<in> set (low_digits i v) \<Longrightarrow> is_digit c"
  by (induction i arbitrary: v) auto

lemma set_strip_zeros: "c \<in> set (strip_zeros s) \<Longrightarrow> c \<in> set s"
  by (auto simp: strip_zeros_def dest: set_dropWhileD)

lemma set_fmtFrac: "c \<in> set (fst (fmtFrac v p)) \<Longrightarrow> is_digit c \<or> c = CHR ''.''"
  by (auto simp: fmtFrac_spec split: if_splits dest: set_strip_zeros set_low_digits)

lemma set_fmtInt: "c \<in> set (fmtInt v) \<Longrightarrow> is_digit c"
  by (simp add: fmtInt_decimal set_decimal)

lemma set_fmt_d: "c \<in> set (fmt_d x) \<Longrightarrow> is_digit c"
  by (simp add: fmt_d_decimal set_decimal)

lemma set_fmt_fixed2: "c \<in> set (fmt_fixed2 x) \<Longrightarrow> is_digit c \<or> c = CHR ''.'' \<or> c = CHR ''-''"
  by (auto simp: fmt_fixed2_def Let_def split: if_splits dest: set_decimal)

lemma fmt_f22_no_pad: "fmt_f22 x = fmt_fixed2 x"
  using length_fmt_fixed2 [of x] by (simp add: fmt_f22_def fmt_pad_def)

lemma fmt_f22_parse_close:
  assumes "0 \<le> x"
  shows "\<exists>r. parse_fixed2 (fmt_f22 x) = Some r \<and> \<bar>r - x\<bar> \<le> 1 / 200"
proof -
  let ?k = "round_half_even (x * 100)"
  have p: "parse_fixed2 (fmt_f22 x) = Some (real ?k / 100)"
    using assms by (simp add: fmt_f22_no_pad fmt_fixed2_nonneg parse_fixed2_hundredths)
  have "\<bar>real ?k - x * 100\<bar> \<le> 1 / 2" using assms by (intro round_half_even_close) simp
  then have "\<bar>real ?k / 100 - x\<bar> \<le> 1 / 200" by (simp add: abs_le_iff field_simps)
  with p show ?thesis by blast
qed

lemma Duration_String_zero: "Duration_String 0 = ''0s''"
  by (simp add: Duration_String_def)

lemma Duration_String_neg: "sint d < 0 \<Longrightarrow> \<exists>rest. Duration_String d = CHR ''-'' # rest"
  by (simp add: Duration_String_def Let_def)

text \<open>At an exact tie between two hundredths, \<open>%2.2f\<close> rounds to the even one.\<close>

lemma fmt_f22_tie:
  assumes "x * 100 = real k + 1 / 2"
  shows "fmt_f22 x =
     (let j = (if even k then k else Suc k)
      in decimal (j div 100) @ CHR ''.'' # [digit_char (j mod 100 div 10), digit_char (j mod 10)])"
proof -
  have x: "0 \<le> x" using assms of_nat_0_le_iff [of k] by linarith
  have f: "nat \<lfloor>x * 100\<rfloor> = k" using assms by linarith
  have "round_half_even (x * 100) = (if even k then k else Suc k)"
    using assms f by (simp add: round_half_even_def Let_def)
  with x show ?thesis by (simp add: fmt_f22_no_pad fmt_fixed2_nonneg Let_def)
qed

section \<open>Properties of the formatting library\<close>

text \<open>C29. Round trip of \<open>%d\<close>: the digits \<open>fmtInteger\<close> prints for a \<open>uint64\<close>
  parse back (as a decimal numeral) to the value itself.\<close>

theorem fmt_d_roundtrip: "parse_decimal (fmt_d x) = Some (unat x)"
  by (simp add: fmt_d_decimal parse_decimal_decimal)

end
