(* ===== verification/Render.thy ===== *)
theory Render
  imports Sysinfo GoFmt
begin

text \<open>
  The two rendering methods of \<open>src/sysinfo.go\<close>. \<open>String\<close> (lines 61--70) is one
  \<open>fmt.Sprintf\<close> over nine fields, with the formatting of \<open>GoFmt\<close>.
  \<open>ToString\<close> (lines 72--77) defers \<open>si.mu.Unlock()\<close>, takes \<open>si.mu.Lock()\<close> and
  returns \<open>si.String()\<close>. The mutex operations follow \<open>sync.Mutex\<close>: \<open>Lock\<close> of
  a held mutex blocks (here \<open>None\<close>: with no other goroutine it never returns),
  \<open>Unlock\<close> of a free mutex is a fatal run-time error. The theory proves that
  \<open>ToString\<close> returns exactly \<open>String\<close>'s text on a free mutex and frees it
  again, that it never reaches the fatal error, that it blocks when its caller
  already holds the mutex, that \<open>String\<close> ignores the fields it does not print,
  and that the numbers it prints read back as the snapshot's.
\<close>

section \<open>String\<close>

abbreviation tab :: char where
  "tab \<equiv> CHR 0x09"

abbreviation nl :: char where
  "nl \<equiv> CHR 0x0A"

text \<open>
  \<^verbatim>\<open>"uptime\t\t%v\nload\t\t%2.2f %2.2f %2.2f\nprocs\t\t%d\n" +\<close>
  \<^verbatim>\<open>"ram  total\t%d kB\nram  free\t%d kB\nram  buffer\t%d kB\n" +\<close>
  \<^verbatim>\<open>"swap total\t%d kB\nswap free\t%d kB"\<close>
  with \<open>si.Uptime, si.Loads[0], si.Loads[1], si.Loads[2], si.Procs, si.TotalRAM,
  si.FreeRAM, si.BufferRAM, si.TotalSwap, si.FreeSwap\<close>.
\<close>

definition String :: "sysinfo \<Rightarrow> string" where
  "String si =
     (case Loads si of
        (l0, l1, l2) \<Rightarrow>
          ''uptime'' @ [tab, tab] @ Duration_String (Uptime si) @ [nl] @
          ''load'' @ [tab, tab] @ fmt_f22 l0 @ '' '' @ fmt_f22 l1 @ '' '' @ fmt_f22 l2 @ [nl] @
          ''procs'' @ [tab, tab] @ fmt_d (Procs si) @ [nl] @
          ''ram  total'' @ [tab] @ fmt_d (TotalRAM si) @ '' kB'' @ [nl] @
          ''ram  free'' @ [tab] @ fmt_d (FreeRAM si) @ '' kB'' @ [nl] @
          ''ram  buffer'' @ [tab] @ fmt_d (BufferRAM si) @ '' kB'' @ [nl] @
          ''swap total'' @ [tab] @ fmt_d (TotalSwap si) @ '' kB'' @ [nl] @
          ''swap free'' @ [tab] @ fmt_d (FreeSwap si) @ '' kB'')"

section \<open>sync.Mutex\<close>

datatype fatal = Unlock_of_unlocked_mutex

definition mutex_Lock :: "mutex \<Rightarrow> mutex option" where
  "mutex_Lock m = (case m of Unlocked \<Rightarrow> Some Locked | Locked \<Rightarrow> None)"

definition mutex_Unlock :: "mutex \<Rightarrow> fatal + mutex" where
  "mutex_Unlock m = (case m of Locked \<Rightarrow> Inr Unlocked | Unlocked \<Rightarrow> Inl Unlock_of_unlocked_mutex)"

section \<open>ToString\<close>

text \<open>
  \<^verbatim>\<open>defer si.mu.Unlock(); si.mu.Lock(); return si.String()\<close>.
  The deferred call runs after the result is computed. \<open>None\<close>: the call blocks
  in \<open>Lock\<close>; \<open>Some (Inl f)\<close>: the deferred \<open>Unlock\<close> fails fatally;
  \<open>Some (Inr (s, si'))\<close>: the returned text and the snapshot afterwards.
\<close>

definition ToString :: "sysinfo \<Rightarrow> (fatal + string \<times> sysinfo) option" where
  "ToString si =
     (case mutex_Lock (mu si) of
        None \<Rightarrow> None
      | Some m \<Rightarrow>
          (let si' = si\<lparr>mu := m\<rparr>; r = String si'
           in case mutex_Unlock (mu si') of
                Inl f \<Rightarrow> Some (Inl f)
              | Inr m' \<Rightarrow> Some (Inr (r, si'\<lparr>mu := m'\<rparr>))))"

section \<open>Reading the text back\<close>

text \<open>Splitting at a separator, and the number at the start of a line's value:
  the digits after the label and its tabs.\<close>

fun split_on :: "char \<Rightarrow> string \<Rightarrow> string list" where
  "split_on c [] = [[]]"
| "split_on c (x # xs) =
     (if x = c then [] # split_on c xs
      else (case split_on c xs of l # ls \<Rightarrow> (x # l) # ls | [] \<Rightarrow> [[x]]))"

definition line_number :: "string \<Rightarrow> nat option" where
  "line_number l =
     parse_decimal (takeWhile is_digit (dropWhile (\<lambda>c. c = tab) (dropWhile (\<lambda>c. c \<noteq> tab) l)))"

text \<open>The label of a line (up to its first tab), and the reading of the last six
  lines of a text as pairs of label and number.\<close>

definition line_label :: "string \<Rightarrow> string" where
  "line_label l = takeWhile (\<lambda>c. c \<noteq> tab) l"

definition String_fields :: "string \<Rightarrow> (string \<times> nat option) list" where
  "String_fields s = map (\<lambda>l. (line_label l, line_number l)) (drop 2 (split_on nl s))"

declare String_def [model_defs]
  mutex_Lock_def [model_defs] mutex_Unlock_def [model_defs] ToString_def [model_defs]

section \<open>Basic facts\<close>

lemma mutex_Lock_simps [simp]:
  "mutex_Lock Unlocked = Some Locked" "mutex_Lock Locked = None"
  by (simp_all add: mutex_Lock_def)

lemma mutex_Unlock_simps [simp]:
  "mutex_Unlock Locked = Inr Unlocked" "mutex_Unlock Unlocked = Inl Unlock_of_unlocked_mutex"
  by (simp_all add: mutex_Unlock_def)

text \<open>\<open>String\<close> reads the nine printed fields and nothing else.\<close>

lemma String_cong:
  assumes "Uptime a = Uptime b" "Loads a = Loads b" "Procs a = Procs b" "TotalRAM a = TotalRAM b"
    "FreeRAM a = FreeRAM b" "BufferRAM a = BufferRAM b" "TotalSwap a = TotalSwap b"
    "FreeSwap a = FreeSwap b"
  shows "String a = String b"
  using assms by (simp add: String_def)

lemma String_mu [simp]: "String (si\<lparr>mu := m\<rparr>) = String si"
  by (rule String_cong) simp_all

lemma is_digit_not_nl: "is_digit c \<Longrightarrow> c \<noteq> nl"
  by (auto simp: is_digit_def)

lemma is_digit_not_tab: "is_digit c \<Longrightarrow> c \<noteq> tab"
  by (auto simp: is_digit_def)

lemma not_is_digit_space [simp]: "\<not> is_digit (CHR '' '')"
  by (simp add: is_digit_def)

section \<open>The text splits into its eight lines\<close>

lemma split_on_no_sep: "c \<notin> set xs \<Longrightarrow> split_on c xs = [xs]"
  by (induction xs) auto

lemma split_on_not_Nil [simp]: "split_on c xs \<noteq> []"
  by (induction xs) (auto split: list.splits)

lemma split_on_append:
  "c \<notin> set xs \<Longrightarrow>
     split_on c (xs @ ys) = (case split_on c ys of l # ls \<Rightarrow> (xs @ l) # ls | [] \<Rightarrow> [xs])"
  by (induction xs) (auto split: list.splits)

lemma nl_notin_fmtFrac: "nl \<notin> set (fst (fmtFrac v p))"
  using set_fmtFrac [of nl v p] is_digit_not_nl by auto

lemma nl_notin_fmtInt: "nl \<notin> set (fmtInt v)"
  using set_fmtInt is_digit_not_nl by blast

lemma nl_notin_micro_sign: "nl \<notin> set micro_sign"
  by (simp add: micro_sign_def char_of_def bit_0)

lemma nl_notin_Duration_String: "nl \<notin> set (Duration_String d)"
  using nl_notin_fmtInt nl_notin_fmtFrac nl_notin_micro_sign
  by (auto simp: Duration_String_def Let_def prod.case_eq_if)

lemma nl_notin_fmt_f22: "nl \<notin> set (fmt_f22 x)"
  using set_fmt_fixed2 [of nl x] is_digit_not_nl by (auto simp: fmt_f22_no_pad)

lemma nl_notin_fmt_d: "nl \<notin> set (fmt_d x)"
  using set_fmt_d is_digit_not_nl by blast

lemma String_lines:
  "split_on nl (String si) =
     [''uptime'' @ [tab, tab] @ Duration_String (Uptime si),
      ''load'' @ [tab, tab] @ fmt_f22 (fst (Loads si)) @ '' '' @ fmt_f22 (fst (snd (Loads si))) @ '' '' @
        fmt_f22 (snd (snd (Loads si))),
      ''procs'' @ [tab, tab] @ fmt_d (Procs si),
      ''ram  total'' @ [tab] @ fmt_d (TotalRAM si) @ '' kB'',
      ''ram  free'' @ [tab] @ fmt_d (FreeRAM si) @ '' kB'',
      ''ram  buffer'' @ [tab] @ fmt_d (BufferRAM si) @ '' kB'',
      ''swap total'' @ [tab] @ fmt_d (TotalSwap si) @ '' kB'',
      ''swap free'' @ [tab] @ fmt_d (FreeSwap si) @ '' kB'']"
proof -
  obtain l0 l1 l2 where l: "Loads si = (l0, l1, l2)" by (cases "Loads si") auto
  show ?thesis
    using l nl_notin_Duration_String nl_notin_fmt_f22 nl_notin_fmt_d
    by (simp add: String_def split_on_append split_on_no_sep)
qed

section \<open>Reading a number back\<close>

lemma dropWhile_replicate: "P x \<Longrightarrow> dropWhile P (replicate k x @ ys) = dropWhile P ys"
  by (induction k) auto

lemma line_number_decimal:
  assumes "tab \<notin> set lbl" and "0 < k" and "rest = [] \<or> \<not> is_digit (hd rest)"
  shows "line_number (lbl @ replicate k tab @ decimal n @ rest) = Some n"
proof -
  obtain d ds where dd: "decimal n = d # ds" by (cases "decimal n") auto
  have "is_digit d" using set_decimal [of d n] dd by simp
  then have "d \<noteq> tab" by (rule is_digit_not_tab)
  obtain k' where k: "k = Suc k'" using assms(2) by (cases k) auto
  have "dropWhile (\<lambda>c. c \<noteq> tab) (lbl @ replicate k tab @ decimal n @ rest) = replicate k tab @ decimal n @ rest"
    using assms(1) k by (subst dropWhile_append2) auto
  moreover have "dropWhile (\<lambda>c. c = tab) (replicate k tab @ decimal n @ rest) = decimal n @ rest"
    using \<open>d \<noteq> tab\<close> dd by (simp add: dropWhile_replicate)
  moreover have "takeWhile is_digit (decimal n @ rest) = decimal n"
    using assms(3) set_decimal by (cases rest) auto
  ultimately show ?thesis
    by (simp add: line_number_def parse_decimal_decimal)
qed

lemma line_number_count:
  "line_number (''procs'' @ [tab, tab] @ decimal n) = Some n"
  using line_number_decimal [of "''procs''" "Suc (Suc 0)" "[]" n] by simp

lemma line_number_kB:
  "tab \<notin> set lbl \<Longrightarrow> line_number (lbl @ [tab] @ decimal n @ '' kB'') = Some n"
  using line_number_decimal [of lbl "Suc 0" "'' kB''" n] by simp

lemma line_label_tab:
  "tab \<notin> set lbl \<Longrightarrow> line_label (lbl @ [tab] @ rest) = lbl"
  "tab \<notin> set lbl \<Longrightarrow> line_label (lbl @ [tab, tab] @ rest) = lbl"
  by (induction lbl) (auto simp: line_label_def)

section \<open>Properties of String and ToString\<close>

text \<open>C10. On a free mutex, \<open>ToString\<close> returns exactly the text of \<open>String\<close>
  and leaves the snapshot as it found it, its mutex free again.\<close>

theorem ToString_eq_String:
  assumes "mu si = Unlocked"
  shows "ToString si = Some (Inr (String si, si))"
proof -
  have "si\<lparr>mu := Unlocked\<rparr> = si" using assms by (cases si) simp
  with assms show ?thesis by (simp add: ToString_def Let_def)
qed

theorem ToString_eq_String_witness:
  "mu sysinfo_zero = Unlocked \<and> ToString sysinfo_zero = Some (Inr (String sysinfo_zero, sysinfo_zero))"
  using ToString_eq_String [of sysinfo_zero] by (simp add: sysinfo_zero_def)

text \<open>C11. \<open>sync.Mutex\<close> is not reentrant: \<open>ToString\<close> called while its caller
  already holds the snapshot's mutex blocks in \<open>Lock\<close> and, with no other
  goroutine to release it, never returns.\<close>

theorem ToString_blocks_when_held: "mu si = Locked \<Longrightarrow> ToString si = None"
  by (simp add: ToString_def)

theorem ToString_blocks_when_held_witness:
  "mu (sysinfo_zero\<lparr>mu := Locked\<rparr>) = Locked \<and> ToString (sysinfo_zero\<lparr>mu := Locked\<rparr>) = None"
  using ToString_blocks_when_held [of "sysinfo_zero\<lparr>mu := Locked\<rparr>"] by simp

text \<open>C12. \<open>String\<close> renders nine quantities only: changing \<open>SharedRAM\<close>,
  \<open>TotalHighRAM\<close>, \<open>FreeHighRAM\<close> or the mutex never changes its text.\<close>

theorem String_ignores_unprinted:
  "String (si\<lparr>SharedRAM := a, TotalHighRAM := b, FreeHighRAM := c, mu := m\<rparr>) = String si"
  by (rule String_cong) simp_all

text \<open>C13. Round trip of the rendering: the last six lines of \<open>String\<close>'s text
  read back, label by label, as the snapshot's process count, RAM total, free and
  buffer figures and swap total and free, in that order.\<close>

theorem String_fields_roundtrip:
  "String_fields (String si) =
     [(''procs'', Some (unat (Procs si))), (''ram  total'', Some (unat (TotalRAM si))),
      (''ram  free'', Some (unat (FreeRAM si))), (''ram  buffer'', Some (unat (BufferRAM si))),
      (''swap total'', Some (unat (TotalSwap si))), (''swap free'', Some (unat (FreeSwap si)))]"
  by (simp add: String_fields_def String_lines fmt_d_decimal line_number_count line_number_kB
      line_label_tab del: append.simps)

end
