(* ===== verification/Concurrent.thy ===== *)
theory Concurrent
  imports Render
begin

text \<open>
  Goroutines sharing one snapshot, as an interleaving step relation. A
  goroutine runs one of three programs:
  \<^item> \<open>ToString\<close> (\<open>src/sysinfo.go\<close> lines 72--77): \<open>Lock\<close>, then \<open>String\<close>'s
    ten argument reads (\<open>si.Uptime\<close>, \<open>si.Loads[0..2]\<close>, \<open>si.Procs\<close>, the five
    memory and swap fields, in argument order, each one load of shared memory),
    the formatting of the values read, then the deferred \<open>Unlock\<close>;
  \<^item> \<open>String\<close> (lines 61--70) called directly: the same reads without the lock;
  \<^item> a writer, the client code the specification allows ("any code path that
    mutates snapshot fields after construction must hold this lock"): \<open>Lock\<close>,
    ten field writes, \<open>Unlock\<close>.
  Each step is one statement of one goroutine; which goroutine moves is not
  determined. Memory is sequentially consistent (each read sees the last write).
  A fatal \<open>Unlock\<close> of a free mutex stops the program (\<open>crashed\<close>). The ghost
  list \<open>hist\<close> records the snapshots committed: the initial one and the shared
  value at each writer's \<open>Unlock\<close>.
\<close>

section \<open>Fields read by String\<close>

datatype fval = FDur i64 | FReal real | FU64 u64

text \<open>The \<open>k\<close>-th argument of \<open>String\<close>'s \<open>Sprintf\<close> call, \<open>k < 10\<close>.\<close>

definition get_field :: "nat \<Rightarrow> sysinfo \<Rightarrow> fval" where
  "get_field k s =
     (if k = 0 then FDur (Uptime s)
      else if k = 1 then FReal (fst (Loads s))
      else if k = 2 then FReal (fst (snd (Loads s)))
      else if k = 3 then FReal (snd (snd (Loads s)))
      else if k = 4 then FU64 (Procs s)
      else if k = 5 then FU64 (TotalRAM s)
      else if k = 6 then FU64 (FreeRAM s)
      else if k = 7 then FU64 (BufferRAM s)
      else if k = 8 then FU64 (TotalSwap s)
      else FU64 (FreeSwap s))"

text \<open>One load or store of that field: its value in \<open>src\<close> copied into \<open>dst\<close>.\<close>

definition copy_field :: "nat \<Rightarrow> sysinfo \<Rightarrow> sysinfo \<Rightarrow> sysinfo" where
  "copy_field k src dst =
     (if k = 0 then dst\<lparr>Uptime := Uptime src\<rparr>
      else if k = 1 then dst\<lparr>Loads := (fst (Loads src), snd (Loads dst))\<rparr>
      else if k = 2 then dst\<lparr>Loads := (fst (Loads dst), fst (snd (Loads src)), snd (snd (Loads dst)))\<rparr>
      else if k = 3 then dst\<lparr>Loads := (fst (Loads dst), fst (snd (Loads dst)), snd (snd (Loads src)))\<rparr>
      else if k = 4 then dst\<lparr>Procs := Procs src\<rparr>
      else if k = 5 then dst\<lparr>TotalRAM := TotalRAM src\<rparr>
      else if k = 6 then dst\<lparr>FreeRAM := FreeRAM src\<rparr>
      else if k = 7 then dst\<lparr>BufferRAM := BufferRAM src\<rparr>
      else if k = 8 then dst\<lparr>TotalSwap := TotalSwap src\<rparr>
      else if k = 9 then dst\<lparr>FreeSwap := FreeSwap src\<rparr>
      else dst)"

section \<open>Goroutines and the system state\<close>

text \<open>Program points: \<open>TS_\<close> for \<open>ToString\<close> (its local copy of the arguments read
  so far), \<open>PS_\<close> for a direct \<open>String\<close> call, \<open>W_\<close> for a writer (the
  snapshot it writes).\<close>

datatype tstate =
    TS_Lock | TS_Read nat sysinfo | TS_Unlock string | TS_Done string
  | PS_Read nat sysinfo | PS_Done string
  | W_Lock sysinfo | W_Write nat sysinfo | W_Unlock | W_Done

record conc =
  shared :: sysinfo
  threads :: "tstate list"
  crashed :: bool
  hist :: "sysinfo list"

text \<open>One step of goroutine \<open>i\<close> at program point \<open>t\<close>; \<open>None\<close> when it is blocked
  in \<open>Lock\<close> or has returned.\<close>

fun step_thread :: "conc \<Rightarrow> nat \<Rightarrow> tstate \<Rightarrow> conc option" where
  "step_thread s i TS_Lock =
     (case mutex_Lock (mu (shared s)) of
        None \<Rightarrow> None
      | Some m \<Rightarrow> Some (s\<lparr>shared := (shared s)\<lparr>mu := m\<rparr>,
                          threads := (threads s)[i := TS_Read 0 sysinfo_zero]\<rparr>))"
| "step_thread s i (TS_Read k loc) =
     Some (if k < 10 then s\<lparr>threads := (threads s)[i := TS_Read (Suc k) (copy_field k (shared s) loc)]\<rparr>
           else s\<lparr>threads := (threads s)[i := TS_Unlock (String loc)]\<rparr>)"
| "step_thread s i (TS_Unlock out) =
     Some (case mutex_Unlock (mu (shared s)) of
             Inl f \<Rightarrow> s\<lparr>crashed := True\<rparr>
           | Inr m \<Rightarrow> s\<lparr>shared := (shared s)\<lparr>mu := m\<rparr>, threads := (threads s)[i := TS_Done out]\<rparr>)"
| "step_thread s i (TS_Done out) = None"
| "step_thread s i (PS_Read k loc) =
     Some (if k < 10 then s\<lparr>threads := (threads s)[i := PS_Read (Suc k) (copy_field k (shared s) loc)]\<rparr>
           else s\<lparr>threads := (threads s)[i := PS_Done (String loc)]\<rparr>)"
| "step_thread s i (PS_Done out) = None"
| "step_thread s i (W_Lock new) =
     (case mutex_Lock (mu (shared s)) of
        None \<Rightarrow> None
      | Some m \<Rightarrow> Some (s\<lparr>shared := (shared s)\<lparr>mu := m\<rparr>, threads := (threads s)[i := W_Write 0 new]\<rparr>))"
| "step_thread s i (W_Write k new) =
     Some (if k < 10 then s\<lparr>shared := copy_field k new (shared s),
                             threads := (threads s)[i := W_Write (Suc k) new]\<rparr>
           else s\<lparr>threads := (threads s)[i := W_Unlock]\<rparr>)"
| "step_thread s i W_Unlock =
     Some (case mutex_Unlock (mu (shared s)) of
             Inl f \<Rightarrow> s\<lparr>crashed := True\<rparr>
           | Inr m \<Rightarrow> s\<lparr>shared := (shared s)\<lparr>mu := m\<rparr>, threads := (threads s)[i := W_Done],
                        hist := hist s @ [shared s]\<rparr>)"
| "step_thread s i W_Done = None"

text \<open>A step of the system: some goroutine that can move moves, unless the
  program has died.\<close>

inductive cstep :: "conc \<Rightarrow> conc \<Rightarrow> bool" where
  step: "\<not> crashed s \<Longrightarrow> i < length (threads s) \<Longrightarrow> step_thread s i (threads s ! i) = Some t \<Longrightarrow>
    cstep s t"

text \<open>The start: the snapshot \<open>Get\<close> returned, every goroutine at its first
  statement, one committed snapshot.\<close>

definition init_conc :: "sysinfo \<Rightarrow> tstate list \<Rightarrow> conc" where
  "init_conc sh ths = \<lparr>shared = sh, threads = ths, crashed = False, hist = [sh]\<rparr>"

fun fresh :: "tstate \<Rightarrow> bool" where
  "fresh TS_Lock = True"
| "fresh (PS_Read k loc) = (k = 0)"
| "fresh (W_Lock new) = True"
| "fresh _ = False"

fun finished :: "tstate \<Rightarrow> bool" where
  "finished (TS_Done out) = True"
| "finished (PS_Done out) = True"
| "finished W_Done = True"
| "finished _ = False"

definition final :: "conc \<Rightarrow> bool" where
  "final s \<longleftrightarrow> \<not> crashed s \<and> list_all finished (threads s)"

text \<open>A schedule: the goroutines to move, in order; \<open>None\<close> if one cannot.\<close>

fun run :: "conc \<Rightarrow> nat list \<Rightarrow> conc option" where
  "run s [] = Some s"
| "run s (i # is) =
     (if \<not> crashed s \<and> i < length (threads s)
      then (case step_thread s i (threads s ! i) of None \<Rightarrow> None | Some t \<Rightarrow> run t is)
      else None)"

section \<open>Invariant and measure\<close>

fun crit :: "tstate \<Rightarrow> bool" where
  "crit (TS_Read k loc) = True"
| "crit (TS_Unlock out) = True"
| "crit (W_Write k new) = True"
| "crit W_Unlock = True"
| "crit _ = False"

fun writing :: "tstate \<Rightarrow> bool" where
  "writing (W_Write k new) = True"
| "writing W_Unlock = True"
| "writing _ = False"

definition agree_upto :: "nat \<Rightarrow> sysinfo \<Rightarrow> sysinfo \<Rightarrow> bool" where
  "agree_upto k a b \<longleftrightarrow> (\<forall>j < k. get_field j a = get_field j b)"

text \<open>What each goroutine knows: a \<open>ToString\<close> has read the committed snapshot's
  fields so far and returns the text of a committed snapshot.\<close>

fun thread_ok :: "sysinfo list \<Rightarrow> tstate \<Rightarrow> bool" where
  "thread_ok h (TS_Read k loc) = (k \<le> 10 \<and> agree_upto k loc (last h))"
| "thread_ok h (TS_Unlock out) = (out \<in> String ` set h)"
| "thread_ok h (TS_Done out) = (out \<in> String ` set h)"
| "thread_ok h (PS_Read k loc) = (k \<le> 10)"
| "thread_ok h (W_Write k new) = (k \<le> 10)"
| "thread_ok h _ = True"

definition conc_inv :: "conc \<Rightarrow> bool" where
  "conc_inv s \<longleftrightarrow>
     \<not> crashed s \<and> hist s \<noteq> [] \<and>
     (mu (shared s) = Locked \<longleftrightarrow> (\<exists>i < length (threads s). crit (threads s ! i))) \<and>
     (\<forall>i < length (threads s). \<forall>j < length (threads s).
        crit (threads s ! i) \<longrightarrow> crit (threads s ! j) \<longrightarrow> i = j) \<and>
     ((\<forall>i < length (threads s). \<not> writing (threads s ! i)) \<longrightarrow> agree_upto 10 (shared s) (last (hist s))) \<and>
     (\<forall>i < length (threads s). thread_ok (hist s) (threads s ! i))"

text \<open>Statements left to run: a measure every step decreases.\<close>

fun left :: "tstate \<Rightarrow> nat" where
  "left TS_Lock = 13"
| "left (TS_Read k loc) = (10 - k) + 2"
| "left (TS_Unlock out) = 1"
| "left (TS_Done out) = 0"
| "left (PS_Read k loc) = (10 - k) + 1"
| "left (PS_Done out) = 0"
| "left (W_Lock new) = 13"
| "left (W_Write k new) = (10 - k) + 2"
| "left W_Unlock = 1"
| "left W_Done = 0"

definition steps_left :: "conc \<Rightarrow> nat" where
  "steps_left s = (if crashed s then 0 else Suc (sum_list (map left (threads s))))"


text \<open>The snapshots the writers were started with, and what a writer's progress
  guarantees about the shared value (the fields written so far are its own).\<close>

fun lock_input :: "tstate \<Rightarrow> sysinfo list" where
  "lock_input (W_Lock new) = [new]"
| "lock_input _ = []"

definition writes :: "tstate list \<Rightarrow> sysinfo list" where
  "writes ths = concat (map lock_input ths)"

fun writer_ok :: "sysinfo set \<Rightarrow> sysinfo \<Rightarrow> tstate \<Rightarrow> bool" where
  "writer_ok ws sh (W_Lock new) = (new \<in> ws)"
| "writer_ok ws sh (W_Write k new) = (new \<in> ws \<and> agree_upto k sh new)"
| "writer_ok ws sh W_Unlock = (\<exists>x\<in>ws. agree_upto 10 sh x)"
| "writer_ok ws sh _ = True"

definition inputs_inv :: "sysinfo \<Rightarrow> sysinfo set \<Rightarrow> conc \<Rightarrow> bool" where
  "inputs_inv sh0 ws s \<longleftrightarrow>
     (\<forall>h\<in>set (hist s). \<exists>x\<in>insert sh0 ws. agree_upto 10 h x) \<and>
     (\<forall>i < length (threads s). writer_ok ws (shared s) (threads s ! i))"

section \<open>Fields\<close>

lemma get_field_mu [simp]: "get_field j (s\<lparr>mu := m\<rparr>) = get_field j s"
  by (simp add: get_field_def)

lemma mu_copy_field [simp]: "mu (copy_field k src dst) = mu dst"
  by (simp add: copy_field_def)

lemma get_copy_same: "k < 10 \<Longrightarrow> get_field k (copy_field k src dst) = get_field k src"
  by (auto simp: get_field_def copy_field_def)

lemma get_copy_other: "j < 10 \<Longrightarrow> j \<noteq> k \<Longrightarrow> get_field j (copy_field k src dst) = get_field j dst"
  by (auto simp: get_field_def copy_field_def)

lemma agree_upto_0 [simp]: "agree_upto 0 a b"
  by (simp add: agree_upto_def)

lemma agree_upto_refl [simp]: "agree_upto k a a"
  by (simp add: agree_upto_def)

lemma agree_upto_mu [simp]:
  "agree_upto k (a\<lparr>mu := m\<rparr>) b = agree_upto k a b" "agree_upto k a (b\<lparr>mu := m\<rparr>) = agree_upto k a b"
  by (simp_all add: agree_upto_def)

lemma agree_upto_field: "agree_upto n a b \<Longrightarrow> j < n \<Longrightarrow> get_field j a = get_field j b"
  by (simp add: agree_upto_def)

text \<open>Reading field \<open>k\<close> from a source that agrees with \<open>h\<close> there extends the
  agreement of the local copy by one field.\<close>

lemma agree_upto_copy:
  assumes "k < 10" and "agree_upto k loc h" and "get_field k src = get_field k h"
  shows "agree_upto (Suc k) (copy_field k src loc) h"
  unfolding agree_upto_def
proof (intro allI impI)
  fix j assume "j < Suc k"
  then consider "j < k" | "j = k" by linarith
  then show "get_field j (copy_field k src loc) = get_field j h"
  proof cases
    case 1
    with assms show ?thesis by (simp add: get_copy_other agree_upto_field)
  next
    case 2
    with assms show ?thesis by (simp add: get_copy_same)
  qed
qed

lemma String_agree:
  assumes "agree_upto 10 a b"
  shows "String a = String b"
proof -
  have f: "get_field j a = get_field j b" if "j < 10" for j
    using assms that by (rule agree_upto_field)
  from f [of 0] f [of 1] f [of 2] f [of 3] f [of 4] f [of 5] f [of 6] f [of 7] f [of 8] f [of 9]
  show ?thesis
    by (intro String_cong) (simp_all add: get_field_def prod_eq_iff)
qed

section \<open>Consequences of the invariant\<close>

lemma writing_crit: "writing t \<Longrightarrow> crit t"
  by (cases t) simp_all

lemma inv_crit_locked:
  "conc_inv s \<Longrightarrow> i < length (threads s) \<Longrightarrow> crit (threads s ! i) \<Longrightarrow> mu (shared s) = Locked"
  by (auto simp: conc_inv_def)

lemma inv_unlocked_no_crit:
  "conc_inv s \<Longrightarrow> mu (shared s) = Unlocked \<Longrightarrow> j < length (threads s) \<Longrightarrow> \<not> crit (threads s ! j)"
  using inv_crit_locked by fastforce

lemma inv_crit_unique:
  "conc_inv s \<Longrightarrow> i < length (threads s) \<Longrightarrow> crit (threads s ! i) \<Longrightarrow> j < length (threads s) \<Longrightarrow>
     j \<noteq> i \<Longrightarrow> \<not> crit (threads s ! j)"
  by (auto simp: conc_inv_def)

text \<open>While a goroutine other than a writer holds the lock, no one is writing and
  the shared snapshot is the last committed one.\<close>

lemma inv_reader_sees_committed:
  assumes "conc_inv s" and "i < length (threads s)" and "crit (threads s ! i)"
    and "\<not> writing (threads s ! i)"
  shows "agree_upto 10 (shared s) (last (hist s))"
proof -
  have "\<forall>j < length (threads s). \<not> writing (threads s ! j)"
  proof (intro allI impI)
    fix j assume j: "j < length (threads s)"
    show "\<not> writing (threads s ! j)"
    proof (cases "j = i")
      case True
      with assms(4) show ?thesis by simp
    next
      case False
      with assms(1-3) j have "\<not> crit (threads s ! j)" by (rule inv_crit_unique)
      then show ?thesis using writing_crit by blast
    qed
  qed
  with assms(1) show ?thesis by (simp add: conc_inv_def)
qed

lemma inv_thread_ok:
  "conc_inv s \<Longrightarrow> i < length (threads s) \<Longrightarrow> thread_ok (hist s) (threads s ! i)"
  by (simp add: conc_inv_def)

section \<open>The invariant is preserved\<close>

lemma inv_local:
  assumes inv: "conc_inv s" and i: "i < length (threads s)"
    and c: "crit x = crit (threads s ! i)" and w: "writing x = writing (threads s ! i)"
    and ok: "thread_ok (hist s) x"
    and m: "mu sh' = mu (shared s)" and sh: "\<not> writing x \<Longrightarrow> sh' = shared s"
  shows "conc_inv (s\<lparr>shared := sh', threads := (threads s)[i := x]\<rparr>)"
proof -
  let ?ths = "(threads s)[i := x]"
  have ce: "\<And>j. j < length (threads s) \<Longrightarrow> crit (?ths ! j) = crit (threads s ! j)"
    using c i by (simp add: nth_list_update)
  have we: "\<And>j. j < length (threads s) \<Longrightarrow> writing (?ths ! j) = writing (threads s ! j)"
    using w i by (simp add: nth_list_update)
  have oe: "\<And>j. j < length (threads s) \<Longrightarrow> thread_ok (hist s) (?ths ! j)"
    using ok i inv_thread_ok [OF inv] by (simp add: nth_list_update)
  have wr: "agree_upto 10 sh' (last (hist s))"
    if nw: "\<forall>j < length (threads s). \<not> writing (?ths ! j)"
  proof -
    have "\<not> writing x" using nw i by auto
    then have "sh' = shared s" by (rule sh)
    moreover have "\<forall>j < length (threads s). \<not> writing (threads s ! j)" using nw we by simp
    ultimately show ?thesis using inv by (simp add: conc_inv_def)
  qed
  have ex: "(\<exists>j < length (threads s). crit (?ths ! j)) = (\<exists>j < length (threads s). crit (threads s ! j))"
    using ce by auto
  show ?thesis
    using inv wr unfolding conc_inv_def by (simp add: ce oe m ex)
qed

lemma thread_ok_mono: "\<not> crit y \<Longrightarrow> set h \<subseteq> set h' \<Longrightarrow> thread_ok h y \<Longrightarrow> thread_ok h' y"
  by (cases y) auto

lemma inv_acquire:
  assumes inv: "conc_inv s" and i: "i < length (threads s)"
    and m: "mu (shared s) = Unlocked" and c: "crit x" and ok: "thread_ok (hist s) x"
  shows "conc_inv (s\<lparr>shared := (shared s)\<lparr>mu := Locked\<rparr>, threads := (threads s)[i := x]\<rparr>)"
proof -
  have nc: "\<And>j. j < length (threads s) \<Longrightarrow> \<not> crit (threads s ! j)"
    using inv m by (rule inv_unlocked_no_crit)
  then have "agree_upto 10 (shared s) (last (hist s))"
    using inv writing_crit by (auto simp: conc_inv_def)
  moreover have co: "\<And>j. j < length (threads s) \<Longrightarrow> crit ((threads s)[i := x] ! j) = (j = i)"
    using i c nc by (auto simp: nth_list_update)
  moreover have "\<And>j. j < length (threads s) \<Longrightarrow> thread_ok (hist s) ((threads s)[i := x] ! j)"
    using i ok inv_thread_ok [OF inv] by (simp add: nth_list_update)
  moreover have "\<exists>j < length (threads s). crit ((threads s)[i := x] ! j)"
    using i c by auto
  ultimately show ?thesis
    using inv i unfolding conc_inv_def by simp
qed

lemma inv_release:
  assumes inv: "conc_inv s" and i: "i < length (threads s)" and c: "crit (threads s ! i)"
    and nc: "\<not> crit x" and ok: "thread_ok h x" and h: "set (hist s) \<subseteq> set h" "h \<noteq> []"
    and ag: "agree_upto 10 (shared s) (last h)"
  shows "conc_inv (s\<lparr>shared := (shared s)\<lparr>mu := Unlocked\<rparr>, threads := (threads s)[i := x], hist := h\<rparr>)"
proof -
  have no: "\<And>j. j < length (threads s) \<Longrightarrow> j \<noteq> i \<Longrightarrow> \<not> crit (threads s ! j)"
    using inv i c by (rule inv_crit_unique)
  have oe: "\<And>j. j < length (threads s) \<Longrightarrow> j \<noteq> i \<Longrightarrow> thread_ok h (threads s ! j)"
    using no h(1) inv_thread_ok [OF inv] thread_ok_mono by blast
  have co: "\<And>j. j < length (threads s) \<Longrightarrow> \<not> crit ((threads s)[i := x] ! j)"
    using i nc no by (simp add: nth_list_update)
  have oe': "\<And>j. j < length (threads s) \<Longrightarrow> thread_ok h ((threads s)[i := x] ! j)"
    using i ok oe by (simp add: nth_list_update)
  from inv h(2) ag co oe' show ?thesis
    unfolding conc_inv_def by simp
qed

lemma inv_local_threads:
  assumes "conc_inv s" "i < length (threads s)" "crit x = crit (threads s ! i)"
    "writing x = writing (threads s ! i)" "thread_ok (hist s) x"
  shows "conc_inv (s\<lparr>threads := (threads s)[i := x]\<rparr>)"
  using inv_local [OF assms, of "shared s"] by simp

lemma step_thread_inv:
  assumes inv: "conc_inv s" and i: "i < length (threads s)"
    and st: "step_thread s i (threads s ! i) = Some t"
  shows "conc_inv t"
proof (cases "threads s ! i")
  case TS_Lock
  with st have m: "mu (shared s) = Unlocked" by (cases "mu (shared s)") auto
  with st TS_Lock inv_acquire [OF inv i m, of "TS_Read 0 sysinfo_zero"] show ?thesis by simp
next
  case (TS_Read k loc)
  have ok: "k \<le> 10" "agree_upto k loc (last (hist s))"
    using inv_thread_ok [OF inv i] TS_Read by simp_all
  show ?thesis
  proof (cases "k < 10")
    case True
    have "agree_upto 10 (shared s) (last (hist s))"
      by (rule inv_reader_sees_committed [OF inv i]) (simp_all add: TS_Read)
    then have "agree_upto (Suc k) (copy_field k (shared s) loc) (last (hist s))"
      using True ok(2) by (intro agree_upto_copy agree_upto_field)
    with st TS_Read True inv_local_threads [OF inv i, of "TS_Read (Suc k) (copy_field k (shared s) loc)"]
    show ?thesis by simp
  next
    case False
    with ok have "String loc = String (last (hist s))" by (simp add: String_agree)
    moreover have "last (hist s) \<in> set (hist s)" using inv by (simp add: conc_inv_def)
    ultimately have "String loc \<in> String ` set (hist s)" by simp
    with st TS_Read False inv_local_threads [OF inv i, of "TS_Unlock (String loc)"]
    show ?thesis by simp
  qed
next
  case (TS_Unlock out)
  have c: "crit (threads s ! i)" using TS_Unlock by simp
  have lk: "mu (shared s) = Locked" using inv i c by (rule inv_crit_locked)
  have ag: "agree_upto 10 (shared s) (last (hist s))"
    by (rule inv_reader_sees_committed [OF inv i]) (simp_all add: TS_Unlock)
  have "thread_ok (hist s) (TS_Done out)" using inv_thread_ok [OF inv i] TS_Unlock by simp
  moreover have "hist s \<noteq> []" using inv by (simp add: conc_inv_def)
  ultimately have "conc_inv (s\<lparr>shared := (shared s)\<lparr>mu := Unlocked\<rparr>,
      threads := (threads s)[i := TS_Done out], hist := hist s\<rparr>)"
    using ag by (intro inv_release [OF inv i c]) simp_all
  moreover have "t = s\<lparr>shared := (shared s)\<lparr>mu := Unlocked\<rparr>, threads := (threads s)[i := TS_Done out]\<rparr>"
    using st TS_Unlock lk by simp
  ultimately show ?thesis by simp
next
  case (PS_Read k loc)
  have "k \<le> 10" using inv_thread_ok [OF inv i] PS_Read by simp
  with st PS_Read inv_local_threads [OF inv i, of "PS_Read (Suc k) (copy_field k (shared s) loc)"]
    inv_local_threads [OF inv i, of "PS_Done (String loc)"]
  show ?thesis by (cases "k < 10") simp_all
next
  case (W_Lock new)
  with st have m: "mu (shared s) = Unlocked" by (cases "mu (shared s)") auto
  with st W_Lock inv_acquire [OF inv i m, of "W_Write 0 new"] show ?thesis by simp
next
  case (W_Write k new)
  have "k \<le> 10" using inv_thread_ok [OF inv i] W_Write by simp
  with st W_Write inv_local [OF inv i, of "W_Write (Suc k) new" "copy_field k new (shared s)"]
    inv_local_threads [OF inv i, of W_Unlock]
  show ?thesis by (cases "k < 10") simp_all
next
  case W_Unlock
  have c: "crit (threads s ! i)" using W_Unlock by simp
  have lk: "mu (shared s) = Locked" using inv i c by (rule inv_crit_locked)
  with st W_Unlock inv_release [OF inv i c, of W_Done "hist s @ [shared s]"] show ?thesis
    by (simp add: subset_insertI)
qed (use st in simp_all)

lemma cstep_inv: "cstep s t \<Longrightarrow> conc_inv s \<Longrightarrow> conc_inv t"
  by (induction rule: cstep.induct) (rule step_thread_inv)

lemma reach_inv: "cstep\<^sup>*\<^sup>* s t \<Longrightarrow> conc_inv s \<Longrightarrow> conc_inv t"
  by (induction rule: rtranclp_induct) (auto intro: cstep_inv)

inductive_cases cstepE: "cstep s t"

section \<open>Progress and the measure\<close>

lemma fresh_idle: "fresh x \<Longrightarrow> \<not> crit x \<and> \<not> writing x \<and> thread_ok h x"
  by (cases x) auto

lemma init_inv: "mu sh = Unlocked \<Longrightarrow> list_all fresh ths \<Longrightarrow> conc_inv (init_conc sh ths)"
  by (auto simp: conc_inv_def init_conc_def list_all_length dest: fresh_idle)

lemma run_cstep: "run s is = Some t \<Longrightarrow> cstep\<^sup>*\<^sup>* s t"
proof (induction s "is" rule: run.induct)
  case (2 s i "is")
  then show ?case
    by (auto split: if_splits option.splits intro: converse_rtranclp_into_rtranclp cstep.step)
qed simp

lemma step_thread_crit: "crit x \<Longrightarrow> step_thread s i x \<noteq> None"
  by (cases x) auto

lemma step_thread_free: "\<not> finished x \<Longrightarrow> mu (shared s) = Unlocked \<Longrightarrow> step_thread s i x \<noteq> None"
  by (cases x) auto

lemma inv_progress:
  assumes inv: "conc_inv s" and nf: "\<not> final s"
  shows "\<exists>t. cstep s t"
proof -
  have nc: "\<not> crashed s" using inv by (simp add: conc_inv_def)
  with nf obtain i where i: "i < length (threads s)" "\<not> finished (threads s ! i)"
    by (auto simp: final_def list_all_length)
  obtain j where j: "j < length (threads s)" "step_thread s j (threads s ! j) \<noteq> None"
  proof (cases "\<exists>j < length (threads s). crit (threads s ! j)")
    case True
    then show ?thesis using that step_thread_crit by blast
  next
    case False
    with inv have "mu (shared s) = Unlocked" by (cases "mu (shared s)") (auto simp: conc_inv_def)
    then show ?thesis using that i step_thread_free by blast
  qed
  then show ?thesis using nc by (auto intro: cstep.step)
qed

lemma sum_list_update_less:
  fixes f :: "'a \<Rightarrow> nat"
  shows "i < length xs \<Longrightarrow> f y < f (xs ! i) \<Longrightarrow> sum_list (map f (xs[i := y])) < sum_list (map f xs)"
proof (induction xs arbitrary: i)
  case (Cons x xs)
  then show ?case by (cases i) auto
qed simp

lemma steps_left_less:
  "\<not> crashed s \<Longrightarrow> \<not> crashed t \<Longrightarrow> threads t = (threads s)[i := y] \<Longrightarrow> i < length (threads s) \<Longrightarrow>
     left y < left (threads s ! i) \<Longrightarrow> steps_left t < steps_left s"
  by (simp add: steps_left_def sum_list_update_less)

lemma step_thread_moves:
  "step_thread s i x = Some t \<Longrightarrow> \<not> crashed t \<Longrightarrow>
     crashed t = crashed s \<and> (\<exists>y. threads t = (threads s)[i := y] \<and> left y < left x)"
  by (cases x; cases "mu (shared s)") (auto split: if_splits)

lemma step_thread_left:
  assumes nc: "\<not> crashed s" and i: "i < length (threads s)"
    and st: "step_thread s i (threads s ! i) = Some t"
  shows "steps_left t < steps_left s"
proof (cases "crashed t")
  case True
  with nc show ?thesis by (simp add: steps_left_def)
next
  case False
  with st obtain y where "threads t = (threads s)[i := y]" "left y < left (threads s ! i)"
    using step_thread_moves by blast
  with nc i False show ?thesis by (intro steps_left_less)
qed

lemma cstep_less: "cstep s t \<Longrightarrow> steps_left t < steps_left s"
  by (induction rule: cstep.induct) (rule step_thread_left)

section \<open>Systems without a writer\<close>



text \<open>Two texts of \<open>String\<close> that agree have the same process count and RAM
  total: they are printed on the third and fourth lines.\<close>

lemma String_eq_Procs_TotalRAM:
  assumes "String a = String b"
  shows "Procs a = Procs b \<and> TotalRAM a = TotalRAM b"
proof -
  have "split_on nl (String a) ! 2 = split_on nl (String b) ! 2"
    "split_on nl (String a) ! 3 = split_on nl (String b) ! 3"
    using assms by simp_all
  then have "fmt_d (Procs a) = fmt_d (Procs b)" "fmt_d (TotalRAM a) = fmt_d (TotalRAM b)"
    by (simp_all add: String_lines)
  then show ?thesis by (simp add: fmt_d_decimal decimal_inject word_unat_eq_iff)
qed


section \<open>Reachable states\<close>

lemma reach_conc_inv:
  "mu sh = Unlocked \<Longrightarrow> list_all fresh ths \<Longrightarrow> cstep\<^sup>*\<^sup>* (init_conc sh ths) s \<Longrightarrow> conc_inv s"
  by (blast intro: reach_inv init_inv)

lemma inv_reaches_final: "conc_inv s \<Longrightarrow> \<exists>t. cstep\<^sup>*\<^sup>* s t \<and> final t"
proof (induction "steps_left s" arbitrary: s rule: less_induct)
  case less
  show ?case
  proof (cases "final s")
    case False
    with less.prems obtain t where t: "cstep s t" using inv_progress by blast
    have "conc_inv t" using t less.prems by (rule cstep_inv)
    with less.hyps [OF cstep_less [OF t]] t show ?thesis
      by (meson converse_rtranclp_into_rtranclp)
  qed blast
qed


section \<open>Committed snapshots come from the inputs\<close>

lemma writer_ok_mu [simp]: "writer_ok ws (sh\<lparr>mu := m\<rparr>) t = writer_ok ws sh t"
  by (cases t) simp_all

lemma writer_ok_not_crit: "\<not> crit t \<Longrightarrow> writer_ok ws a t = writer_ok ws b t"
  by (cases t) simp_all

lemma inputs_frame:
  assumes inv: "inputs_inv sh0 ws s" and i: "i < length (threads s)" and y: "writer_ok ws sh' y"
    and oth: "\<And>j. j < length (threads s) \<Longrightarrow> j \<noteq> i \<Longrightarrow> writer_ok ws (shared s) (threads s ! j) \<Longrightarrow>
                writer_ok ws sh' (threads s ! j)"
    and h: "\<forall>h\<in>set h'. \<exists>x\<in>insert sh0 ws. agree_upto 10 h x"
  shows "inputs_inv sh0 ws (s\<lparr>shared := sh', threads := (threads s)[i := y], hist := h'\<rparr>)"
proof -
  have "writer_ok ws sh' ((threads s)[i := y] ! j)" if "j < length (threads s)" for j
    using inv that i y oth by (cases "j = i") (auto simp: inputs_inv_def)
  with h show ?thesis by (simp add: inputs_inv_def)
qed

lemma inputs_init:
  "list_all fresh ths \<Longrightarrow> inputs_inv sh (set (writes ths)) (init_conc sh ths)"
proof -
  assume f: "list_all fresh ths"
  have "writer_ok (set (writes ths)) sh (ths ! j)" if "j < length ths" for j
  proof -
    have m: "ths ! j \<in> set ths" using that by simp
    have "fresh (ths ! j)" using f that by (simp add: list_all_length)
    then show ?thesis using m by (cases "ths ! j") (force simp: writes_def)+
  qed
  then show ?thesis by (auto simp: inputs_inv_def init_conc_def)
qed

lemma inputs_same_shared:
  assumes "inputs_inv sh0 ws s" "i < length (threads s)" "writer_ok ws (shared s) y"
  shows "inputs_inv sh0 ws (s\<lparr>threads := (threads s)[i := y]\<rparr>)"
  using inputs_frame [OF assms, of "hist s"] assms(1) by (simp add: inputs_inv_def)

lemma inputs_mu:
  assumes "inputs_inv sh0 ws s" "i < length (threads s)" "writer_ok ws (shared s) y"
  shows "inputs_inv sh0 ws (s\<lparr>shared := (shared s)\<lparr>mu := m\<rparr>, threads := (threads s)[i := y]\<rparr>)"
  using inputs_frame [OF assms(1,2), of "(shared s)\<lparr>mu := m\<rparr>" y "hist s"] assms(1,3)
  by (simp add: inputs_inv_def)

lemma step_thread_inputs:
  assumes inv: "conc_inv s" and ii: "inputs_inv sh0 ws s" and i: "i < length (threads s)"
    and st: "step_thread s i (threads s ! i) = Some t"
  shows "inputs_inv sh0 ws t"
proof -
  have wo: "writer_ok ws (shared s) (threads s ! i)" using ii i by (simp add: inputs_inv_def)
  show ?thesis
  proof (cases "threads s ! i")
    case TS_Lock
    with st have "mu (shared s) = Unlocked" by (cases "mu (shared s)") auto
    with st TS_Lock inputs_mu [OF ii i, of "TS_Read 0 sysinfo_zero" Locked] show ?thesis by simp
  next
    case (TS_Read k loc)
    with st inputs_same_shared [OF ii i, of "TS_Read (Suc k) (copy_field k (shared s) loc)"]
      inputs_same_shared [OF ii i, of "TS_Unlock (String loc)"]
    show ?thesis by (cases "k < 10") simp_all
  next
    case (TS_Unlock out)
    then have "crit (threads s ! i)" by simp
    with inv i have "mu (shared s) = Locked" by (rule inv_crit_locked)
    with st TS_Unlock inputs_mu [OF ii i, of "TS_Done out" Unlocked] show ?thesis by simp
  next
    case (PS_Read k loc)
    with st inputs_same_shared [OF ii i, of "PS_Read (Suc k) (copy_field k (shared s) loc)"]
      inputs_same_shared [OF ii i, of "PS_Done (String loc)"]
    show ?thesis by (cases "k < 10") simp_all
  next
    case (W_Lock new)
    with st have "mu (shared s) = Unlocked" by (cases "mu (shared s)") auto
    with st W_Lock wo inputs_mu [OF ii i, of "W_Write 0 new" Locked] show ?thesis by simp
  next
    case (W_Write k new)
    have c: "crit (threads s ! i)" using W_Write by simp
    have k: "k \<le> 10" using inv_thread_ok [OF inv i] W_Write by simp
    have a: "new \<in> ws" "agree_upto k (shared s) new" using wo W_Write by simp_all
    show ?thesis
    proof (cases "k < 10")
      case True
      have y: "writer_ok ws (copy_field k new (shared s)) (W_Write (Suc k) new)"
        using a True by (simp add: agree_upto_copy)
      have "writer_ok ws (copy_field k new (shared s)) (threads s ! j)"
        if "j < length (threads s)" "j \<noteq> i" "writer_ok ws (shared s) (threads s ! j)" for j
        using that inv_crit_unique [OF inv i c, of j] writer_ok_not_crit by blast
      then have "inputs_inv sh0 ws (s\<lparr>shared := copy_field k new (shared s),
          threads := (threads s)[i := W_Write (Suc k) new], hist := hist s\<rparr>)"
        using ii by (intro inputs_frame [OF ii i y]) (simp_all add: inputs_inv_def)
      moreover have "t = s\<lparr>shared := copy_field k new (shared s),
          threads := (threads s)[i := W_Write (Suc k) new]\<rparr>"
        using st W_Write True by simp
      ultimately show ?thesis by simp
    next
      case False
      with k a have "writer_ok ws (shared s) W_Unlock" by auto
      with st W_Write False inputs_same_shared [OF ii i, of W_Unlock] show ?thesis by simp
    qed
  next
    case W_Unlock
    have c: "crit (threads s ! i)" using W_Unlock by simp
    have lk: "mu (shared s) = Locked" using inv i c by (rule inv_crit_locked)
    have o: "\<exists>x\<in>ws. agree_upto 10 (shared s) x" using wo W_Unlock by simp
    have "writer_ok ws ((shared s)\<lparr>mu := Unlocked\<rparr>) (threads s ! j)"
      if "j < length (threads s)" "j \<noteq> i" "writer_ok ws (shared s) (threads s ! j)" for j
      using that by simp
    then have "inputs_inv sh0 ws (s\<lparr>shared := (shared s)\<lparr>mu := Unlocked\<rparr>,
        threads := (threads s)[i := W_Done], hist := hist s @ [shared s]\<rparr>)"
      using ii o by (intro inputs_frame [OF ii i]) (auto simp: inputs_inv_def)
    with st W_Unlock lk show ?thesis by simp
  qed (use st in simp_all)
qed

lemma reach_inputs_inv:
  assumes "mu sh = Unlocked" "list_all fresh ths" "cstep\<^sup>*\<^sup>* (init_conc sh ths) s"
  shows "inputs_inv sh (set (writes ths)) s"
  using assms(3)
proof (induction rule: rtranclp_induct)
  case base
  then show ?case using assms(2) by (rule inputs_init)
next
  case (step u v)
  have "conc_inv u" using assms(1,2) step.hyps(1) by (rule reach_conc_inv)
  with step show ?case by (auto elim!: cstepE intro: step_thread_inputs)
qed

section \<open>Properties of the concurrent program\<close>

text \<open>C14. In every state reachable from a snapshot with a free mutex and goroutines at
  their first statement, the text a finished \<open>ToString\<close> returned is \<open>String\<close> of a
  committed snapshot (the initial one or one a writer left at its \<open>Unlock\<close>), whatever
  the interleaving: holding the lock, it never sees a half-written snapshot.\<close>

theorem ToString_output_committed:
  assumes "mu sh = Unlocked" "list_all fresh ths" "cstep\<^sup>*\<^sup>* (init_conc sh ths) s"
    "i < length (threads s)" "threads s ! i = TS_Done out"
  shows "out \<in> String ` set (hist s)"
  using inv_thread_ok [OF reach_conc_inv [OF assms(1-3)] assms(4)] assms(5) by simp

theorem ToString_output_committed_witness:
  "\<exists>s out. mu sysinfo_zero = Unlocked \<and> list_all fresh [TS_Lock, W_Lock (sysinfo_zero\<lparr>Procs := 1\<rparr>)] \<and>
     cstep\<^sup>*\<^sup>* (init_conc sysinfo_zero [TS_Lock, W_Lock (sysinfo_zero\<lparr>Procs := 1\<rparr>)]) s \<and>
     0 < length (threads s) \<and> threads s ! 0 = TS_Done out \<and> out \<in> String ` set (hist s)"
proof -
  have "\<exists>s out. run (init_conc sysinfo_zero [TS_Lock, W_Lock (sysinfo_zero\<lparr>Procs := 1\<rparr>)])
      [1,1,1,1,1,1,1,1,1,1,1,1,1, 0,0,0,0,0,0,0,0,0,0,0,0,0] = Some s \<and> threads s ! 0 = TS_Done out \<and> 0 < length (threads s)"
    by (simp add: init_conc_def copy_field_def sysinfo_zero_def)
  then obtain s out where r: "run (init_conc sysinfo_zero [TS_Lock, W_Lock (sysinfo_zero\<lparr>Procs := 1\<rparr>)])
      [1,1,1,1,1,1,1,1,1,1,1,1,1, 0,0,0,0,0,0,0,0,0,0,0,0,0] = Some s" and o: "threads s ! 0 = TS_Done out" and l: "0 < length (threads s)"
    by blast
  have m: "mu sysinfo_zero = Unlocked" by (simp add: sysinfo_zero_def)
  have f: "list_all fresh [TS_Lock, W_Lock (sysinfo_zero\<lparr>Procs := 1\<rparr>)]" by simp
  from ToString_output_committed [OF m f run_cstep [OF r] l o] m f run_cstep [OF r] o l show ?thesis
    by blast
qed



text \<open>C17. Mutual exclusion: in a reachable state at most one goroutine is between
  its \<open>Lock\<close> and its \<open>Unlock\<close> (a \<open>ToString\<close> reading or a writer writing).\<close>

theorem ToString_mutual_exclusion:
  assumes "mu sh = Unlocked" "list_all fresh ths" "cstep\<^sup>*\<^sup>* (init_conc sh ths) s"
    "i < length (threads s)" "j < length (threads s)" "crit (threads s ! i)" "crit (threads s ! j)"
  shows "i = j"
  using reach_conc_inv [OF assms(1-3)] assms(4-7) by (auto simp: conc_inv_def)

theorem ToString_mutual_exclusion_witness:
  "\<exists>s. mu sysinfo_zero = Unlocked \<and> list_all fresh [TS_Lock, TS_Lock] \<and>
     cstep\<^sup>*\<^sup>* (init_conc sysinfo_zero [TS_Lock, TS_Lock]) s \<and>
     0 < length (threads s) \<and> crit (threads s ! 0) \<and> (0::nat) = 0"
proof -
  have "\<exists>s. run (init_conc sysinfo_zero [TS_Lock, TS_Lock]) [0] = Some s \<and>
      crit (threads s ! 0) \<and> 0 < length (threads s)"
    by (simp add: init_conc_def sysinfo_zero_def)
  then obtain s where r: "run (init_conc sysinfo_zero [TS_Lock, TS_Lock]) [0] = Some s"
    and c: "crit (threads s ! 0)" and l: "0 < length (threads s)"
    by blast
  have m: "mu sysinfo_zero = Unlocked" by (simp add: sysinfo_zero_def)
  have f: "list_all fresh [TS_Lock, TS_Lock]" by simp
  from ToString_mutual_exclusion [OF m f run_cstep [OF r] l l c c] m f run_cstep [OF r] c l show ?thesis
    by blast
qed





text \<open>C20. From every reachable state the system can run to a final state, in
  which every goroutine has returned and the program has not died.\<close>

theorem conc_eventually_final:
  "mu sh = Unlocked \<Longrightarrow> list_all fresh ths \<Longrightarrow> cstep\<^sup>*\<^sup>* (init_conc sh ths) s \<Longrightarrow>
     \<exists>t. cstep\<^sup>*\<^sup>* s t \<and> final t"
  using reach_conc_inv inv_reaches_final by blast

theorem conc_eventually_final_witness:
  "mu sysinfo_zero = Unlocked \<and> list_all fresh [TS_Lock, W_Lock (sysinfo_zero\<lparr>Procs := 1\<rparr>)] \<and>
   cstep\<^sup>*\<^sup>* (init_conc sysinfo_zero [TS_Lock, W_Lock (sysinfo_zero\<lparr>Procs := 1\<rparr>)]) (init_conc sysinfo_zero [TS_Lock, W_Lock (sysinfo_zero\<lparr>Procs := 1\<rparr>)]) \<and>
   (\<exists>t. cstep\<^sup>*\<^sup>* (init_conc sysinfo_zero [TS_Lock, W_Lock (sysinfo_zero\<lparr>Procs := 1\<rparr>)]) t \<and> final t)"
  using conc_eventually_final [of sysinfo_zero "[TS_Lock, W_Lock (sysinfo_zero\<lparr>Procs := 1\<rparr>)]"]
  by (simp add: sysinfo_zero_def)

text \<open>C21. \<open>String\<close> called without the lock while a writer updates the snapshot
  (what the specification forbids: "not synchronized") can return a torn text. For
  every snapshot and every update that changes both the process count and the RAM
  total, some interleaving lets a plain \<open>String\<close> finish with a text that is
  neither the old snapshot's nor the new one's (it shows the new process count
  and the old RAM total), and the program still ends normally.\<close>

theorem String_torn_read:
  assumes "mu old = Unlocked" and "Procs new \<noteq> Procs old" and "TotalRAM new \<noteq> TotalRAM old"
  shows "\<exists>t out. cstep\<^sup>*\<^sup>* (init_conc old [PS_Read 0 sysinfo_zero, W_Lock new]) t \<and>
     final t \<and> threads t ! 0 = PS_Done out \<and> out \<noteq> String old \<and> out \<noteq> String new"
proof -
  have "\<exists>t out. run (init_conc old [PS_Read 0 sysinfo_zero, W_Lock new])
      [1,1,1,1,1,1, 0,0,0,0,0,0,0,0,0,0,0, 1,1,1,1,1, 1,1] = Some t \<and> final t \<and>
      threads t ! 0 = PS_Done out \<and> out \<noteq> String old \<and> out \<noteq> String new"
    using assms
    by (simp add: init_conc_def copy_field_def final_def) (auto dest!: String_eq_Procs_TotalRAM)
  then show ?thesis using run_cstep by blast
qed

theorem String_torn_read_witness:
  "mu sysinfo_zero = Unlocked \<and> Procs (sysinfo_zero\<lparr>Procs := 1, TotalRAM := 1\<rparr>) \<noteq> Procs sysinfo_zero \<and>
   TotalRAM (sysinfo_zero\<lparr>Procs := 1, TotalRAM := 1\<rparr>) \<noteq> TotalRAM sysinfo_zero \<and>
   (\<exists>t out. cstep\<^sup>*\<^sup>* (init_conc sysinfo_zero
        [PS_Read 0 sysinfo_zero, W_Lock (sysinfo_zero\<lparr>Procs := 1, TotalRAM := 1\<rparr>)]) t \<and>
     final t \<and> threads t ! 0 = PS_Done out \<and> out \<noteq> String sysinfo_zero \<and>
     out \<noteq> String (sysinfo_zero\<lparr>Procs := 1, TotalRAM := 1\<rparr>))"
proof -
  have h: "mu sysinfo_zero = Unlocked" "Procs (sysinfo_zero\<lparr>Procs := 1, TotalRAM := 1\<rparr>) \<noteq> Procs sysinfo_zero"
    "TotalRAM (sysinfo_zero\<lparr>Procs := 1, TotalRAM := 1\<rparr>) \<noteq> TotalRAM sysinfo_zero"
    by (simp_all add: sysinfo_zero_def)
  from String_torn_read [OF h] h show ?thesis by blast
qed

text \<open>C15. No corrupted output, in terms of the inputs: every text a finished
  \<open>ToString\<close> returns is \<open>String\<close> of the initial snapshot or of the complete
  snapshot one of the writers was started with, never a mixture, in every
  interleaving.\<close>

theorem ToString_output_from_inputs:
  assumes "mu sh = Unlocked" "list_all fresh ths" "cstep\<^sup>*\<^sup>* (init_conc sh ths) s"
    "i < length (threads s)" "threads s ! i = TS_Done out"
  shows "out \<in> String ` insert sh (set (writes ths))"
proof -
  have "out \<in> String ` set (hist s)"
    using inv_thread_ok [OF reach_conc_inv [OF assms(1-3)] assms(4)] assms(5) by simp
  then obtain h where h: "h \<in> set (hist s)" "out = String h" by blast
  with reach_inputs_inv [OF assms(1-3)] obtain x where "x \<in> insert sh (set (writes ths))"
      "agree_upto 10 h x"
    by (auto simp: inputs_inv_def)
  with h show ?thesis by (auto dest: String_agree)
qed

theorem ToString_output_from_inputs_witness:
  "\<exists>s out. mu sysinfo_zero = Unlocked \<and> list_all fresh [TS_Lock, W_Lock (sysinfo_zero\<lparr>Procs := 1\<rparr>)] \<and>
     cstep\<^sup>*\<^sup>* (init_conc sysinfo_zero [TS_Lock, W_Lock (sysinfo_zero\<lparr>Procs := 1\<rparr>)]) s \<and>
     0 < length (threads s) \<and> threads s ! 0 = TS_Done out \<and>
     out \<in> String ` insert sysinfo_zero (set (writes [TS_Lock, W_Lock (sysinfo_zero\<lparr>Procs := 1\<rparr>)]))"
proof -
  have "\<exists>s out. run (init_conc sysinfo_zero [TS_Lock, W_Lock (sysinfo_zero\<lparr>Procs := 1\<rparr>)])
      [1,1,1,1,1,1,1,1,1,1,1,1,1, 0,0,0,0,0,0,0,0,0,0,0,0,0] = Some s \<and> threads s ! 0 = TS_Done out \<and>
      0 < length (threads s)"
    by (simp add: init_conc_def copy_field_def sysinfo_zero_def)
  then obtain s out where r: "run (init_conc sysinfo_zero [TS_Lock, W_Lock (sysinfo_zero\<lparr>Procs := 1\<rparr>)])
      [1,1,1,1,1,1,1,1,1,1,1,1,1, 0,0,0,0,0,0,0,0,0,0,0,0,0] = Some s" and o: "threads s ! 0 = TS_Done out"
      and l: "0 < length (threads s)"
    by blast
  have m: "mu sysinfo_zero = Unlocked" by (simp add: sysinfo_zero_def)
  have f: "list_all fresh [TS_Lock, W_Lock (sysinfo_zero\<lparr>Procs := 1\<rparr>)]" by simp
  from ToString_output_from_inputs [OF m f run_cstep [OF r] l o] m f run_cstep [OF r] o l show ?thesis
    by blast
qed

end
