(* ===== verification/Spec2Isabelle.thy ===== *)
theory Spec2Isabelle
  imports Concurrent
begin

text \<open>
  \<^bold>\<open>A verification development for thiagozs/sysinfo.\<close>

  \<^bold>\<open>The program.\<close> \<open>src/sysinfo.go\<close> is one Go package with one type and
  three functions. \<open>Get\<close> (lines 28--59) calls \<open>syscall.Sysinfo\<close>, returns
  its error unchanged, and otherwise builds a \<open>Sysinfo\<close> (lines 12--25):
  load averages as \<open>float64(raw) / 65536.0\<close>, the uptime as
  \<open>time.Duration(raw) * time.Second\<close>, the process count widened to
  \<open>uint64\<close>, and seven memory figures as \<open>raw / (uint64(Unit) * 1024)\<close>.
  \<open>String\<close> (lines 61--70) renders nine of the fields with \<open>fmt.Sprintf\<close>;
  \<open>ToString\<close> (lines 72--77) does the same while holding the snapshot's
  \<open>sync.Mutex\<close>, released by a deferred \<open>Unlock\<close>. A caller gets a snapshot
  from \<open>Get\<close> and renders it, possibly from several goroutines at once.

  \<^bold>\<open>Theories\<close> (each imports the ones before it).
  \<^item> \<open>Go_Prelude\<close>: the Go integer types as words (\<open>u16\<close>, \<open>u32\<close>, \<open>u64\<close>,
    and \<open>i64\<close> read by \<open>sint\<close>), the fact collections \<open>model_defs\<close> and
    \<open>word_casts\<close>, the binary length \<open>bitlen\<close>, and lemmas on widening casts,
    multiplication without wrap-around and powers of two.
  \<^item> \<open>Kernel\<close>: the interface the program calls, modelled from Go's standard
    library: the record \<open>sysinfo_t\<close> (\<open>syscall.Sysinfo_t\<close> on linux/amd64) and
    \<open>Sysinfo_syscall\<close> (\<open>syscall.Sysinfo\<close>: a nonzero errno is the error). The
    kernel's reply is an input of the model.
  \<^item> \<open>Float64\<close>: Go's \<open>float64(x)\<close> of a \<open>uint64\<close>, round to nearest with
    ties to even at 53 significant bits (\<open>f64_round\<close>), exact below \<open>2^53\<close>,
    relative error at most \<open>2^-53\<close>, result with a 53-bit significand.
  \<^item> \<open>Sysinfo\<close>: the record \<open>sysinfo\<close> (the Go struct, its mutex a
    \<open>mutex\<close> value), \<open>sysinfo_zero\<close> (\<open>&Sysinfo{}\<close>), one definition per
    conversion of \<open>Get\<close> (\<open>scale\<close>, \<open>load_of\<close>, \<open>mem_unit\<close>, \<open>kb_of\<close>,
    \<open>uptime_of\<close>) and \<open>Get\<close> itself, of type \<open>errno \<Rightarrow> sysinfo_t \<Rightarrow>
    get_error + sysinfo\<close>: \<open>Inl (Errno e)\<close> is the returned error,
    \<open>Inl Panic_divide_by_zero\<close> the run-time panic of a zero unit.
  \<^item> \<open>GoFmt\<close>: the library code the format verbs run, modelled from Go's
    sources: \<open>%d\<close> (\<open>fmt_d\<close>, the digit loop of \<open>fmtInteger\<close>), \<open>%2.2f\<close>
    (\<open>fmt_f22\<close>: \<open>FormatFloat(x, 'f', 2, 64)\<close> with exact round-half-even, then
    \<open>fmt.pad\<close> to width 2, which never pads), \<open>%v\<close> of a \<open>time.Duration\<close>
    (\<open>Duration_String\<close> with \<open>fmtFrac\<close> and \<open>fmtInt\<close>); reference definitions
    (\<open>decimal\<close>, \<open>dur_hms\<close>, \<open>parse_decimal\<close>, \<open>parse_fixed2\<close>) and the
    equivalence and round-trip lemmas between them.
  \<^item> \<open>Render\<close>: \<open>String\<close> (the whole format string and its nine arguments),
    the mutex operations \<open>mutex_Lock\<close> (\<open>None\<close>: blocks) and \<open>mutex_Unlock\<close>
    (\<open>Inl\<close>: Go's fatal "unlock of unlocked mutex"), \<open>ToString\<close> as their
    composition in the order the code runs them, and a line parser
    (\<open>split_on\<close>, \<open>line_label\<close>, \<open>String_fields\<close>) to read the text back.
  \<^item> \<open>Concurrent\<close>: goroutines sharing one snapshot as the inductive step
    relation \<open>cstep\<close>: each goroutine is at a program point (\<open>tstate\<close>) of
    \<open>ToString\<close> (\<open>TS_\<close>: \<open>Lock\<close>, the ten argument loads of \<open>String\<close>, the
    formatting, the deferred \<open>Unlock\<close>), of a plain \<open>String\<close> call (\<open>PS_\<close>) or of
    a writer the specification allows (\<open>W_\<close>: \<open>Lock\<close>, ten stores, \<open>Unlock\<close>);
    \<open>step_thread\<close> runs one statement of one goroutine. A ghost list \<open>hist\<close>
    records the committed snapshots. The invariant \<open>conc_inv\<close> (lock held iff
    one goroutine is in its critical section, at most one there, the shared
    value committed when no writer is active, each goroutine's local reads
    agreeing with the last committed snapshot) is preserved by every step,
    one lemma per kind of step; a second invariant \<open>inputs_inv\<close> ties every
    committed snapshot to the inputs; \<open>steps_left\<close>, a measure every step
    decreases, carries the proof that a final state is always reachable.
  \<^item> \<open>Spec2Isabelle\<close> (this theory): properties spanning the components.

  \<^bold>\<open>What is proved.\<close>
  \<^item> \<open>Get\<close> (C1--C9, \<open>Sysinfo\<close>): the error path returns the kernel's errno
    and no snapshot; on success every field is the stated conversion; a zero
    unit panics; loads are exact below \<open>2^53\<close> and within a relative \<open>2^-53\<close>
    always; \<open>SharedRAM\<close> is always zero; doubling the unit halves the memory
    figures (C7, contrary to the specification's property 2); the uptime is
    exact up to 9223372036 s (C8) and wraps for every uptime beyond (C9).
  \<^item> \<open>String\<close>/\<open>ToString\<close> (C10--C13, \<open>Render\<close>): on a free mutex \<open>ToString\<close>
    equals \<open>String\<close> and frees the mutex again; it blocks for ever when the
    caller holds the lock; the text ignores the unprinted fields; its last six
    lines read back, label by label, as the snapshot's six integer figures.
  \<^item> Concurrency (C14--C21, \<open>Concurrent\<close>): every \<open>ToString\<close> output is the
    text of a committed snapshot (C14), that is of the initial snapshot or of
    one writer's complete update, never a mixture (C15); with no writer it is
    the single-threaded result (C16, the specification's property 5); mutual
    exclusion (C17); no fatal \<open>Unlock\<close> (C18); no deadlock (C19); every
    reachable state can finish (C20); and for every update changing two printed
    fields, a plain \<open>String\<close> racing the writer can return a torn text (C21).
  \<^item> Across components (C22--C28): a consistent kernel reply gives a
    well-formed snapshot (C22, \<open>Sysinfo\<close>); the uptime line as hours, minutes
    and seconds (C23), \<open>0s\<close> for a zero uptime (C24), a negative duration once
    the uptime product wraps (C25); printed loads within \<open>1/200\<close> of
    \<open>raw / 65536\<close> below \<open>2^53\<close> (C26) and within \<open>1/200\<close> plus a relative
    \<open>2^-53\<close> always (C27); a load exactly between two hundredths printed
    rounded to even (C28).
  \<^item> The formatting library (C29, \<open>GoFmt\<close>): \<open>%d\<close> reads back as its value.
    Its characterisations (\<open>fmtFrac\<close> strips trailing zeros, \<open>Duration_String\<close>
    of whole seconds is \<open>dur_hms\<close>, \<open>%2.2f\<close> rounds half to even) are the
    lemmas the other claims use.

  \<^bold>\<open>Bounds and fuel.\<close> No fuel is used: every loop of the formatting
  library is structural recursion on a counter or on the value's division by
  10, and the interleaving needs none since \<open>steps_left\<close> bounds every run. The bound 9223372036 s is the
  largest uptime whose nanosecond count fits in \<open>int64\<close>; \<open>2^53\<close> is where
  \<open>float64\<close> stops representing every integer.

  \<^bold>\<open>Not modelled.\<close> The kernel itself (its reply is an arbitrary input);
  \<open>fmt.Sprintf\<close>'s verb parsing, reflection and buffer management (the nine
  verbs are modelled by what they print); Go's memory model beyond sequential
  consistency (each field load or store is one atomic step; Go's race detector
  and word tearing within one field are not modelled); the scheduler's
  fairness (the liveness claims hold for every interleaving since every run
  is finite); memory allocation and garbage collection.

  \<^bold>\<open>Plan left.\<close> The exact text of a negative uptime (only its sign is
  characterised, C25); a \<open>ToString\<close> called
  from inside a writer's critical section in the interleaving model (the
  sequential self-deadlock is C11); readers that hold a snapshot across a
  writer's update, to state which committed snapshot each output shows.
\<close>

section \<open>Properties across components\<close>

lemma printed_load_bound:
  "\<exists>r. parse_fixed2 (fmt_f22 (load_of x)) = Some r \<and>
     \<bar>r - real (unat x) / 65536\<bar> \<le> 1 / 200 + real (unat x) / 65536 / 2 ^ 53"
proof -
  have "0 \<le> load_of x" by (simp add: load_of_value)
  then obtain r where r: "parse_fixed2 (fmt_f22 (load_of x)) = Some r" "\<bar>r - load_of x\<bar> \<le> 1 / 200"
    using fmt_f22_parse_close by blast
  have "\<bar>load_of x - real (unat x) / 65536\<bar> \<le> real (unat x) / 65536 / 2 ^ 53"
    using load_of_rel_error [of x] by (simp add: field_simps)
  with r show ?thesis by (intro exI [of _ r]) linarith
qed

text \<open>C23. \<open>Get\<close> then \<open>%v\<close>: for a kernel uptime of \<open>s\<close> seconds,
  \<open>0 < s \<le> 9223372036\<close>, the first line of \<open>String\<close>'s text is \<open>uptime\<close>, two tabs
  and \<open>s\<close> written as hours, minutes and seconds (\<open>time.Duration.String\<close> of a
  whole number of seconds).\<close>

theorem Get_uptime_line:
  assumes "Get e1 info = Inr si" "0 < sint (si_Uptime info)" "sint (si_Uptime info) \<le> 9223372036"
  shows "hd (split_on nl (String si)) = ''uptime'' @ [tab, tab] @ dur_hms (nat (sint (si_Uptime info)))"
proof -
  have u: "Uptime si = uptime_of (si_Uptime info)" using assms(1) by (simp add: Get_Inr_iff)
  have "0 \<le> sint (uptime_of (si_Uptime info)) \<and>
      unat (uptime_of (si_Uptime info)) = nat (sint (si_Uptime info)) * 1000000000"
    using assms(2,3) by (intro uptime_of_unat) simp_all
  then have "Duration_String (Uptime si) = dur_hms (nat (sint (si_Uptime info)))"
    using assms(2) u by (intro Duration_String_whole_seconds) simp_all
  then show ?thesis by (simp add: String_lines)
qed

theorem Get_uptime_line_witness:
  "\<exists>si. Get 0 example_info = Inr si \<and> 0 < sint (si_Uptime example_info) \<and>
     sint (si_Uptime example_info) \<le> 9223372036 \<and>
     hd (split_on nl (String si)) = ''uptime'' @ [tab, tab] @ ''1h0m0s''"
proof -
  obtain si where g: "Get 0 example_info = Inr si" using Get_example_Inr by blast
  have b: "0 < sint (si_Uptime example_info)" "sint (si_Uptime example_info) \<le> 9223372036"
    by (simp_all add: example_info_def)
  have "dur_hms (nat (sint (si_Uptime example_info))) = ''1h0m0s''"
    by (simp add: example_info_def dur_hms_def decimal_simps digit_char_def char_of_def bit_0)
  with Get_uptime_line [OF g b] g b show ?thesis by auto
qed

text \<open>C26. \<open>Get\<close> then \<open>%2.2f\<close>: for raw load samples below \<open>2^53\<close>, each
  printed load average reads back as a decimal within \<open>1/200\<close> of
  \<open>raw / 65536\<close> (the conversion is exact there and the formatting rounds to the
  nearest hundredth).\<close>

theorem Get_printed_loads_close:
  assumes "Get e1 info = Inr si" "si_Loads info = (l0, l1, l2)"
    "unat l0 < 2 ^ 53" "unat l1 < 2 ^ 53" "unat l2 < 2 ^ 53"
  shows "\<exists>r0 r1 r2. parse_fixed2 (fmt_f22 (fst (Loads si))) = Some r0 \<and>
           parse_fixed2 (fmt_f22 (fst (snd (Loads si)))) = Some r1 \<and>
           parse_fixed2 (fmt_f22 (snd (snd (Loads si)))) = Some r2 \<and>
           \<bar>r0 - real (unat l0) / 65536\<bar> \<le> 1 / 200 \<and> \<bar>r1 - real (unat l1) / 65536\<bar> \<le> 1 / 200 \<and>
           \<bar>r2 - real (unat l2) / 65536\<bar> \<le> 1 / 200"
proof -
  have l: "Loads si = (real (unat l0) / 65536, real (unat l1) / 65536, real (unat l2) / 65536)"
    using assms by (simp add: Get_Inr_iff load_of_value f64_round_exact)
  have n: "0 \<le> real (unat x) / 65536" for x :: u64 by (intro divide_nonneg_pos of_nat_0_le_iff) simp
  obtain r0 r1 r2 where
      "parse_fixed2 (fmt_f22 (real (unat l0) / 65536)) = Some r0" "\<bar>r0 - real (unat l0) / 65536\<bar> \<le> 1 / 200"
      "parse_fixed2 (fmt_f22 (real (unat l1) / 65536)) = Some r1" "\<bar>r1 - real (unat l1) / 65536\<bar> \<le> 1 / 200"
      "parse_fixed2 (fmt_f22 (real (unat l2) / 65536)) = Some r2" "\<bar>r2 - real (unat l2) / 65536\<bar> \<le> 1 / 200"
    using fmt_f22_parse_close [OF n] by meson
  then show ?thesis unfolding l by auto
qed

theorem Get_printed_loads_close_witness:
  "\<exists>si r0 r1 r2. Get 0 example_info = Inr si \<and> si_Loads example_info = (65536, 131072, 196608) \<and>
     unat (65536 :: u64) < 2 ^ 53 \<and> unat (131072 :: u64) < 2 ^ 53 \<and> unat (196608 :: u64) < 2 ^ 53 \<and>
     parse_fixed2 (fmt_f22 (fst (Loads si))) = Some r0 \<and>
     parse_fixed2 (fmt_f22 (fst (snd (Loads si)))) = Some r1 \<and>
     parse_fixed2 (fmt_f22 (snd (snd (Loads si)))) = Some r2 \<and>
     \<bar>r0 - 1\<bar> \<le> 1 / 200 \<and> \<bar>r1 - 2\<bar> \<le> 1 / 200 \<and> \<bar>r2 - 3\<bar> \<le> 1 / 200"
proof -
  obtain si where g: "Get 0 example_info = Inr si" using Get_example_Inr by blast
  have l: "si_Loads example_info = (65536, 131072, 196608)" by (simp add: example_info_def)
  have b: "unat (65536 :: u64) < 2 ^ 53" "unat (131072 :: u64) < 2 ^ 53" "unat (196608 :: u64) < 2 ^ 53"
    by simp_all
  from Get_printed_loads_close [OF g l b] g l b show ?thesis by auto
qed

text \<open>C24. Boundary: a kernel uptime of zero seconds is printed as \<open>0s\<close> (the
  special case of \<open>Duration.String\<close> for a zero duration).\<close>

theorem Get_uptime_zero_line:
  assumes "Get e1 info = Inr si" and "si_Uptime info = 0"
  shows "hd (split_on nl (String si)) = ''uptime'' @ [tab, tab] @ ''0s''"
  using assms by (simp add: Get_Inr_iff String_lines uptime_of_def Duration_String_zero)

theorem Get_uptime_zero_line_witness:
  "\<exists>si. Get 0 (example_info\<lparr>si_Uptime := 0\<rparr>) = Inr si \<and> si_Uptime (example_info\<lparr>si_Uptime := 0\<rparr>) = 0 \<and>
     hd (split_on nl (String si)) = ''uptime'' @ [tab, tab] @ ''0s''"
proof -
  obtain si where g: "Get 0 (example_info\<lparr>si_Uptime := 0\<rparr>) = Inr si"
    by (simp add: Get_Inr_iff example_info_def)
  have u: "si_Uptime (example_info\<lparr>si_Uptime := 0\<rparr>) = 0" by simp
  from Get_uptime_zero_line [OF g u] g u show ?thesis by blast
qed

text \<open>C25. Overflow reaches the output: when \<open>time.Duration(si.Uptime) * time.Second\<close>
  wraps to a negative \<open>int64\<close> (any uptime above 9223372036 s, C9), the uptime
  line of \<open>String\<close> shows a negative duration.\<close>

theorem Get_uptime_wrapped_line:
  assumes "Get e1 info = Inr si" and "sint (uptime_of (si_Uptime info)) < 0"
  shows "\<exists>rest. hd (split_on nl (String si)) = ''uptime'' @ [tab, tab] @ CHR ''-'' # rest"
proof -
  have "Uptime si = uptime_of (si_Uptime info)" using assms(1) by (simp add: Get_Inr_iff)
  with Duration_String_neg [OF assms(2)] show ?thesis by (auto simp: String_lines)
qed

theorem Get_uptime_wrapped_line_witness:
  "\<exists>si rest. Get 0 (example_info\<lparr>si_Uptime := 9223372037\<rparr>) = Inr si \<and>
     sint (uptime_of (si_Uptime (example_info\<lparr>si_Uptime := 9223372037\<rparr>))) < 0 \<and>
     hd (split_on nl (String si)) = ''uptime'' @ [tab, tab] @ CHR ''-'' # rest"
proof -
  obtain si where g: "Get 0 (example_info\<lparr>si_Uptime := 9223372037\<rparr>) = Inr si"
    by (simp add: Get_Inr_iff example_info_def)
  have n: "sint (uptime_of (si_Uptime (example_info\<lparr>si_Uptime := 9223372037\<rparr>))) < 0"
    by (simp add: uptime_of_def)
  from Get_uptime_wrapped_line [OF g n] g n show ?thesis by blast
qed


text \<open>C27. \<open>Get\<close> then \<open>%2.2f\<close> for every raw sample: each printed load average
  reads back within \<open>1/200\<close> plus \<open>2^-53\<close> of \<open>raw / 65536\<close> (the rounding to
  hundredths plus the \<open>float64\<close> conversion error of C5).\<close>

theorem Get_printed_loads_bound:
  assumes "Get e1 info = Inr si" "si_Loads info = (l0, l1, l2)"
  shows "\<exists>r0 r1 r2. parse_fixed2 (fmt_f22 (fst (Loads si))) = Some r0 \<and>
           parse_fixed2 (fmt_f22 (fst (snd (Loads si)))) = Some r1 \<and>
           parse_fixed2 (fmt_f22 (snd (snd (Loads si)))) = Some r2 \<and>
           \<bar>r0 - real (unat l0) / 65536\<bar> \<le> 1 / 200 + real (unat l0) / 65536 / 2 ^ 53 \<and>
           \<bar>r1 - real (unat l1) / 65536\<bar> \<le> 1 / 200 + real (unat l1) / 65536 / 2 ^ 53 \<and>
           \<bar>r2 - real (unat l2) / 65536\<bar> \<le> 1 / 200 + real (unat l2) / 65536 / 2 ^ 53"
proof -
  have l: "Loads si = (load_of l0, load_of l1, load_of l2)"
    using assms by (simp add: Get_Inr_iff)
  show ?thesis
    unfolding l using printed_load_bound [of l0] printed_load_bound [of l1] printed_load_bound [of l2]
    by auto
qed

theorem Get_printed_loads_bound_witness:
  "\<exists>si r0 r1 r2. Get 0 (example_info\<lparr>si_Loads := (2 ^ 60 + 7, 0, 1)\<rparr>) = Inr si \<and>
     si_Loads (example_info\<lparr>si_Loads := (2 ^ 60 + 7, 0, 1)\<rparr>) = (2 ^ 60 + 7, 0, 1) \<and>
     parse_fixed2 (fmt_f22 (fst (Loads si))) = Some r0 \<and>
     \<bar>r0 - real (unat (2 ^ 60 + 7 :: u64)) / 65536\<bar> \<le> 1 / 200 + real (unat (2 ^ 60 + 7 :: u64)) / 65536 / 2 ^ 53 \<and>
     parse_fixed2 (fmt_f22 (fst (snd (Loads si)))) = Some r1 \<and>
     parse_fixed2 (fmt_f22 (snd (snd (Loads si)))) = Some r2"
proof -
  obtain si where g: "Get 0 (example_info\<lparr>si_Loads := (2 ^ 60 + 7, 0, 1)\<rparr>) = Inr si"
    by (simp add: Get_Inr_iff example_info_def)
  have l: "si_Loads (example_info\<lparr>si_Loads := (2 ^ 60 + 7, 0, 1)\<rparr>) = (2 ^ 60 + 7, 0, 1)" by simp
  from Get_printed_loads_bound [OF g l] g l show ?thesis by blast
qed


text \<open>C28. Ties at a half hundredth: a load sample is \<open>raw / 65536\<close>, a dyadic
  number, so a printed load can fall exactly between two hundredths (raw 8192 is
  0.125). \<open>%2.2f\<close> then rounds to the even hundredth (0.125 prints as 0.12,
  0.375 as 0.38), as Go's \<open>FormatFloat\<close> does, not half up.\<close>

theorem load_printed_tie_to_even:
  assumes "unat l < 2 ^ 53" and "real (unat l) * 100 = (real k + 1 / 2) * 65536"
  shows "fmt_f22 (load_of l) =
     (let j = (if even k then k else Suc k)
      in decimal (j div 100) @ CHR ''.'' # [digit_char (j mod 100 div 10), digit_char (j mod 10)])"
proof -
  have "load_of l = real (unat l) / 65536"
    using assms(1) by (simp add: load_of_value f64_round_exact)
  then have "load_of l * 100 = real k + 1 / 2" using assms(2) by simp
  then show ?thesis by (rule fmt_f22_tie)
qed

theorem load_printed_tie_to_even_witness:
  "unat (8192 :: u64) < 2 ^ 53 \<and> real (unat (8192 :: u64)) * 100 = (real (12::nat) + 1 / 2) * 65536 \<and>
   fmt_f22 (load_of 8192) = ''0.12'' \<and>
   unat (24576 :: u64) < 2 ^ 53 \<and> real (unat (24576 :: u64)) * 100 = (real (37::nat) + 1 / 2) * 65536 \<and>
   fmt_f22 (load_of 24576) = ''0.38''"
proof -
  have a: "unat (8192 :: u64) < 2 ^ 53" "real (unat (8192 :: u64)) * 100 = (real (12::nat) + 1 / 2) * 65536"
    by simp_all
  have b: "unat (24576 :: u64) < 2 ^ 53" "real (unat (24576 :: u64)) * 100 = (real (37::nat) + 1 / 2) * 65536"
    by simp_all
  from load_printed_tie_to_even [OF a] load_printed_tie_to_even [OF b] a b show ?thesis
    by (simp add: decimal_simps digit_char_def char_of_def bit_0)
qed

end
